theory Spec2Isabelle
  imports Complex_Main "HOL-Library.Product_Lexorder" "HOL-Library.Multiset"
begin

section \<open>Python values\<close>

text \<open>
  A Python \<^verbatim>\<open>str\<close> is a sequence of Unicode code points, and \<^verbatim>\<open>len\<close>, slicing and
  comparison work on code points. A string is therefore a list of code points (natural
  numbers), not a list of 8-bit characters: the ellipsis that \<^verbatim>\<open>plain_excerpt\<close> appends
  is the single code point U+2026. The literals of the source are ASCII and are written
  \<open>ascii ''...''\<close>.
\<close>

type_synonym pystr = "nat list"

definition ascii :: "string \<Rightarrow> pystr" where
  "ascii s = map of_char s"

text \<open>
  What \<^verbatim>\<open>json.load\<close> returns. A float is the real number it denotes (NaN and the
  infinities, which \<^verbatim>\<open>json.load\<close> also accepts, are not represented); the code never
  computes with one. A dict is its list of items; \<^verbatim>\<open>d.get(k)\<close> reads the binding of
  \<open>k\<close>.
\<close>

datatype json =
    JNull
  | JBool bool
  | JInt int
  | JFloat real
  | JStr pystr
  | JList "json list"
  | JDict "(pystr \<times> json) list"

text \<open>The exceptions that the modelled code can raise or let through.\<close>

datatype exn =
    FileNotFoundError
  | JSONDecodeError
  | PermissionError
  | IsADirectoryError
  | NotADirectoryError
  | UnicodeDecodeError
  | AttributeError
  | TypeError
  | ValueError

text \<open>Truth value testing, as \<^verbatim>\<open>not x\<close>, \<^verbatim>\<open>x or y\<close> and \<^verbatim>\<open>if x\<close> apply it.\<close>

fun truthy :: "json \<Rightarrow> bool" where
  "truthy JNull = False"
| "truthy (JBool b) = b"
| "truthy (JInt n) = (n \<noteq> 0)"
| "truthy (JFloat r) = (r \<noteq> 0)"
| "truthy (JStr s) = (s \<noteq> [])"
| "truthy (JList xs) = (xs \<noteq> [])"
| "truthy (JDict kvs) = (kvs \<noteq> [])"

definition py_or :: "json \<Rightarrow> json \<Rightarrow> json" where
  "py_or a b = (if truthy a then a else b)"

text \<open>\<^verbatim>\<open>d.get(k)\<close> and \<^verbatim>\<open>d.get(k, default)\<close> on the items of a dict.\<close>

definition dict_get :: "(pystr \<times> json) list \<Rightarrow> pystr \<Rightarrow> json \<Rightarrow> json" where
  "dict_get kvs k dflt = (case map_of kvs k of None \<Rightarrow> dflt | Some v \<Rightarrow> v)"

section \<open>String methods\<close>

text \<open>
  Whitespace as \<^verbatim>\<open>str.strip()\<close>, \<^verbatim>\<open>str.split()\<close> and \<^verbatim>\<open>str.isspace()\<close> see it: the code
  points U+0009..U+000D, U+001C..U+0020, U+0085, U+00A0, U+1680, U+2000..U+200A, U+2028,
  U+2029, U+202F, U+205F and U+3000.
\<close>

definition is_space :: "nat \<Rightarrow> bool" where
  "is_space c \<longleftrightarrow>
     (9 \<le> c \<and> c \<le> 13) \<or> (28 \<le> c \<and> c \<le> 32) \<or> c = 133 \<or> c = 160 \<or> c = 5760
     \<or> (8192 \<le> c \<and> c \<le> 8202) \<or> c = 8232 \<or> c = 8233 \<or> c = 8239 \<or> c = 8287
     \<or> c = 12288"

definition double_space :: "nat \<Rightarrow> nat \<Rightarrow> bool" where
  "double_space a b \<longleftrightarrow> is_space a \<and> is_space b"

text \<open>\<^verbatim>\<open>s.strip()\<close>.\<close>

definition py_strip :: "pystr \<Rightarrow> pystr" where
  "py_strip s = rev (dropWhile is_space (rev (dropWhile is_space s)))"

text \<open>
  \<^verbatim>\<open>s.split()\<close>: the maximal runs of characters that are not whitespace, in order. The
  scan carries the word read so far.
\<close>

fun split_ws :: "pystr \<Rightarrow> pystr \<Rightarrow> pystr list" where
  "split_ws cur [] = (if cur = [] then [] else [cur])"
| "split_ws cur (c # cs) =
     (if is_space c then (if cur = [] then split_ws [] cs else cur # split_ws [] cs)
      else split_ws (cur @ [c]) cs)"

definition py_split :: "pystr \<Rightarrow> pystr list" where
  "py_split s = split_ws [] s"

text \<open>\<^verbatim>\<open>sep.join(words)\<close>.\<close>

fun py_join :: "pystr \<Rightarrow> pystr list \<Rightarrow> pystr" where
  "py_join sep [] = []"
| "py_join sep [w] = w"
| "py_join sep (w # v # ws) = w @ sep @ py_join sep (v # ws)"

text \<open>
  \<^verbatim>\<open>s.replace(old, new)\<close>: every occurrence of \<open>old\<close>, found from the left and not
  overlapping, is replaced. \<open>skip\<close> counts the characters of an occurrence already
  replaced that are still to be passed over.
\<close>

fun replace_scan :: "nat \<Rightarrow> pystr \<Rightarrow> pystr \<Rightarrow> pystr \<Rightarrow> pystr" where
  "replace_scan skip old new [] = []"
| "replace_scan skip old new (c # cs) =
     (if 0 < skip then replace_scan (skip - 1) old new cs
      else if take (length old) (c # cs) = old then new @ replace_scan (length old - 1) old new cs
      else c # replace_scan 0 old new cs)"

definition py_replace :: "pystr \<Rightarrow> pystr \<Rightarrow> pystr \<Rightarrow> pystr" where
  "py_replace s old new =
     (if old = [] then new @ concat (map (\<lambda>c. c # new) s) else replace_scan 0 old new s)"

text \<open>
  \<^verbatim>\<open>s.rsplit(sep, 1)\<close> and \<^verbatim>\<open>s.split(sep, maxsplit)\<close> for a separator of one character,
  which is how the source calls them.
\<close>

definition rsplit1 :: "nat \<Rightarrow> pystr \<Rightarrow> pystr list" where
  "rsplit1 sep s =
     (if sep \<in> set s
      then [rev (tl (dropWhile (\<lambda>c. c \<noteq> sep) (rev s))), rev (takeWhile (\<lambda>c. c \<noteq> sep) (rev s))]
      else [s])"

fun split_max :: "nat \<Rightarrow> nat \<Rightarrow> pystr \<Rightarrow> pystr list" where
  "split_max sep 0 s = [s]"
| "split_max sep (Suc n) s =
     (if sep \<in> set s
      then takeWhile (\<lambda>c. c \<noteq> sep) s # split_max sep n (tl (dropWhile (\<lambda>c. c \<noteq> sep) s))
      else [s])"

text \<open>\<^verbatim>\<open>s[:k]\<close> for an integer \<open>k\<close>: a negative \<open>k\<close> counts from the end.\<close>

definition slice_to :: "pystr \<Rightarrow> int \<Rightarrow> pystr" where
  "slice_to s k = (if 0 \<le> k then take (nat k) s else take (nat (int (length s) + k)) s)"

text \<open>\<^verbatim>\<open>v.strip()\<close> on a value: only a string has the method.\<close>

definition strip_method :: "json \<Rightarrow> exn + pystr" where
  "strip_method v = (case v of JStr s \<Rightarrow> Inr (py_strip s) | _ \<Rightarrow> Inl AttributeError)"

text \<open>
  Two library functions rest on Unicode tables or on number formatting and are
  parameters of the model: \<^verbatim>\<open>str(v)\<close> for a value that is not a string (for a string,
  \<^verbatim>\<open>str\<close> returns it as it is), and \<^verbatim>\<open>str.lower\<close>.
\<close>

record pylib =
  str_of :: "json \<Rightarrow> pystr"
  lower :: "pystr \<Rightarrow> pystr"

definition py_str :: "pylib \<Rightarrow> json \<Rightarrow> pystr" where
  "py_str lib v = (case v of JStr s \<Rightarrow> s | _ \<Rightarrow> str_of lib v)"

section \<open>Date utility\<close>

text \<open>
  \<^verbatim>\<open>datetime.strptime(s, "%Y-%m-%d")\<close> compiles the format to the regular expression
  \<^verbatim>\<open>(?P<Y>\d\d\d\d)-(?P<m>1[0-2]|0[1-9]|[1-9])-(?P<d>3[0-1]|[1-2]\d|0[1-9]|[1-9]| [1-9])\<close>,
  matches it at the start of the string, raises \<^verbatim>\<open>ValueError\<close> when there is no match
  or when text remains after the match, converts the three groups with \<^verbatim>\<open>int\<close> and
  builds the date, which raises \<^verbatim>\<open>ValueError\<close> for a year below 1 or a day the month
  does not have. In a \<^verbatim>\<open>str\<close> pattern \<^verbatim>\<open>\d\<close> is any Unicode decimal digit (category Nd);
  the digits of each script are ten consecutive code points, listed here by their zero
  (Unicode 14).
\<close>

definition digit_zeros :: "nat list" where
  "digit_zeros =
     [48, 1632, 1776, 1984, 2406, 2534, 2662, 2790, 2918, 3046, 3174, 3302, 3430, 3558, 3664,
      3792, 3872, 4160, 4240, 6112, 6160, 6470, 6608, 6784, 6800, 6992, 7088, 7232, 7248,
      42528, 43216, 43264, 43472, 43504, 43600, 44016, 65296, 66720, 68912, 69734, 69872,
      69942, 70096, 70384, 70736, 70864, 71248, 71360, 71472, 71904, 72016, 72784, 73040,
      73120, 92768, 92864, 93008, 120782, 120792, 120802, 120812, 120822, 123200, 123632,
      125264, 130032]"

definition decimal_value :: "nat \<Rightarrow> nat option" where
  "decimal_value c =
     (case find (\<lambda>z. z \<le> c \<and> c < z + 10) digit_zeros of
        None \<Rightarrow> None
      | Some z \<Rightarrow> Some (c - z))"

definition is_decimal :: "nat \<Rightarrow> bool" where
  "is_decimal c = (decimal_value c \<noteq> None)"

definition in_range :: "nat \<Rightarrow> nat \<Rightarrow> nat \<Rightarrow> bool" where
  "in_range lo hi c \<longleftrightarrow> lo \<le> c \<and> c \<le> hi"

text \<open>
  A piece of the regular expression maps the text to the ways it can match at its start,
  in the order the matcher tries them, each with the text that remains.
\<close>

definition re_one :: "(nat \<Rightarrow> bool) \<Rightarrow> pystr \<Rightarrow> (pystr \<times> pystr) list" where
  "re_one p s = (case s of a # r \<Rightarrow> if p a then [([a], r)] else [] | [] \<Rightarrow> [])"

definition re_two :: "(nat \<Rightarrow> bool) \<Rightarrow> (nat \<Rightarrow> bool) \<Rightarrow> pystr \<Rightarrow> (pystr \<times> pystr) list" where
  "re_two p q s =
     (case s of a # b # r \<Rightarrow> if p a \<and> q b then [([a, b], r)] else [] | _ \<Rightarrow> [])"

definition re_lit :: "nat \<Rightarrow> pystr \<Rightarrow> pystr list" where
  "re_lit c s = (case s of a # r \<Rightarrow> if a = c then [r] else [] | [] \<Rightarrow> [])"

definition re_Y :: "pystr \<Rightarrow> (pystr \<times> pystr) list" where
  "re_Y s =
     (case s of
        a # b # c # d # r \<Rightarrow>
          if is_decimal a \<and> is_decimal b \<and> is_decimal c \<and> is_decimal d
          then [([a, b, c, d], r)] else []
      | _ \<Rightarrow> [])"

definition re_m :: "pystr \<Rightarrow> (pystr \<times> pystr) list" where
  "re_m s =
     re_two (\<lambda>c. c = 49) (in_range 48 50) s
     @ re_two (\<lambda>c. c = 48) (in_range 49 57) s
     @ re_one (in_range 49 57) s"

definition re_d :: "pystr \<Rightarrow> (pystr \<times> pystr) list" where
  "re_d s =
     re_two (\<lambda>c. c = 51) (in_range 48 49) s
     @ re_two (in_range 49 50) is_decimal s
     @ re_two (\<lambda>c. c = 48) (in_range 49 57) s
     @ re_one (in_range 49 57) s
     @ re_two (\<lambda>c. c = 32) (in_range 49 57) s"

definition re_match_ymd :: "pystr \<Rightarrow> (pystr \<times> pystr \<times> pystr \<times> pystr) list" where
  "re_match_ymd s =
     concat (map (\<lambda>(y, r0).
       concat (map (\<lambda>r1.
         concat (map (\<lambda>(m, r2).
           concat (map (\<lambda>r3.
             map (\<lambda>(d, r4). (y, m, d, r4)) (re_d r3))
           (re_lit 45 r2)))
         (re_m r1)))
       (re_lit 45 r0)))
     (re_Y s))"

text \<open>\<^verbatim>\<open>int(text)\<close> for the text of a group: decimal digits, after a space for a day.\<close>

definition int_of_group :: "pystr \<Rightarrow> int option" where
  "int_of_group s =
     (let t = py_strip s
      in if t = [] \<or> \<not> list_all is_decimal t then None
         else Some (foldl (\<lambda>a c. 10 * a + (case decimal_value c of Some v \<Rightarrow> int v | None \<Rightarrow> 0)) 0 t))"

text \<open>
  A date is (year, month, day); Python compares dates field by field in this order, which
  is the lexicographic order of the triple. The datetimes of this program all have the
  time 00:00, so a datetime is its date.
\<close>

type_synonym date = "int \<times> int \<times> int"

definition is_leap :: "int \<Rightarrow> bool" where
  "is_leap y \<longleftrightarrow> y mod 4 = 0 \<and> (y mod 100 \<noteq> 0 \<or> y mod 400 = 0)"

definition days_in_month_table :: "int list" where
  "days_in_month_table = [-1, 31, 28, 31, 30, 31, 30, 31, 31, 30, 31, 30, 31]"

definition days_before_month_table :: "int list" where
  "days_before_month_table = [-1, 0, 31, 59, 90, 120, 151, 181, 212, 243, 273, 304, 334]"

definition days_in_month :: "int \<Rightarrow> int \<Rightarrow> int" where
  "days_in_month y m = (if m = 2 \<and> is_leap y then 29 else days_in_month_table ! nat m)"

definition days_before_month :: "int \<Rightarrow> int \<Rightarrow> int" where
  "days_before_month y m =
     days_before_month_table ! nat m + (if 2 < m \<and> is_leap y then 1 else 0)"

definition days_before_year :: "int \<Rightarrow> int" where
  "days_before_year y = (let y1 = y - 1 in y1 * 365 + y1 div 4 - y1 div 100 + y1 div 400)"

text \<open>The constructor of a date checks its fields; \<open>None\<close> is its \<^verbatim>\<open>ValueError\<close>.\<close>

definition make_date :: "int \<Rightarrow> int \<Rightarrow> int \<Rightarrow> date option" where
  "make_date y m d =
     (if y < 1 \<or> 9999 < y then None
      else if m < 1 \<or> 12 < m then None
      else if d < 1 \<or> days_in_month y m < d then None
      else Some (y, m, d))"

text \<open>The dates that the constructor accepts.\<close>

definition valid_date :: "date \<Rightarrow> bool" where
  "valid_date dt =
     (case dt of (y, m, d) \<Rightarrow>
        1 \<le> y \<and> y \<le> 9999 \<and> 1 \<le> m \<and> m \<le> 12 \<and> 1 \<le> d \<and> d \<le> days_in_month y m)"

definition toordinal :: "date \<Rightarrow> int" where
  "toordinal dt = (case dt of (y, m, d) \<Rightarrow> days_before_year y + days_before_month y m + d)"

text \<open>The three groups converted and the date built; \<open>None\<close> is a \<^verbatim>\<open>ValueError\<close>.\<close>

definition date_of_groups :: "pystr \<Rightarrow> pystr \<Rightarrow> pystr \<Rightarrow> date option" where
  "date_of_groups y m d =
     (case (int_of_group y, int_of_group m, int_of_group d) of
        (Some yy, Some mm, Some dd) \<Rightarrow> make_date yy mm dd
      | _ \<Rightarrow> None)"

definition strptime_ymd :: "pystr \<Rightarrow> exn + date" where
  "strptime_ymd s =
     (case re_match_ymd s of
        [] \<Rightarrow> Inl ValueError
      | (y, m, d, rest) # _ \<Rightarrow>
          if rest \<noteq> [] then Inl ValueError
          else (case date_of_groups y m d of None \<Rightarrow> Inl ValueError | Some dt \<Rightarrow> Inr dt))"

definition datetime_min :: date where
  "datetime_min = (1, 1, 1)"

text \<open>\<^verbatim>\<open>parse_date_ymd\<close>: the parsed date, or \<^verbatim>\<open>datetime.min\<close> on any exception.\<close>

definition parse_date_ymd :: "pystr \<Rightarrow> date" where
  "parse_date_ymd s = (case strptime_ymd s of Inl _ \<Rightarrow> datetime_min | Inr dt \<Rightarrow> dt)"

text \<open>
  \<^verbatim>\<open>days_between\<close>: the body runs in a \<^verbatim>\<open>try\<close> whose handler returns 0 for every
  exception.
\<close>

definition days_between :: "pystr \<Rightarrow> pystr \<Rightarrow> int" where
  "days_between start_ymd end_ymd =
     (case strptime_ymd start_ymd of
        Inl _ \<Rightarrow> 0
      | Inr s \<Rightarrow>
          (case strptime_ymd end_ymd of
             Inl _ \<Rightarrow> 0
           | Inr e \<Rightarrow> if s \<le> e then toordinal e - toordinal s + 1 else 0))"

text \<open>
  Follows the spec's words, for comparison with \<open>strptime_ymd\<close>: strict \<^verbatim>\<open>YYYY-MM-DD\<close> is
  four digits, a hyphen, two digits, a hyphen and two digits (the digits 0 to 9), naming
  a date of the calendar.
\<close>

definition ascii_digit :: "nat \<Rightarrow> bool" where
  "ascii_digit c \<longleftrightarrow> 48 \<le> c \<and> c \<le> 57"

definition strict_ymd :: "pystr \<Rightarrow> date option" where
  "strict_ymd s =
     (case s of
        [y1, y2, y3, y4, h1, m1, m2, h2, d1, d2] \<Rightarrow>
          if list_all ascii_digit [y1, y2, y3, y4, m1, m2, d1, d2] \<and> h1 = 45 \<and> h2 = 45
          then make_date
                 (int (1000 * (y1 - 48) + 100 * (y2 - 48) + 10 * (y3 - 48) + (y4 - 48)))
                 (int (10 * (m1 - 48) + (m2 - 48)))
                 (int (10 * (d1 - 48) + (d2 - 48)))
          else None
      | _ \<Rightarrow> None)"

section \<open>Content loader\<close>

text \<open>
  The file system is what the two calls in the \<^verbatim>\<open>try\<close> of \<^verbatim>\<open>load_json\<close> do at a path:
  \<^verbatim>\<open>path.open\<close> raises or returns a file, and \<^verbatim>\<open>json.load\<close> on that file raises or
  returns the parsed value. Paths are relative to the application's directory.
\<close>

type_synonym filesystem = "pystr \<Rightarrow> exn + (exn + json)"

definition load_json :: "filesystem \<Rightarrow> pystr \<Rightarrow> json \<Rightarrow> exn + json" where
  "load_json fs path dflt =
     (case (case fs path of Inl e \<Rightarrow> Inl e | Inr f \<Rightarrow> f) of
        Inr v \<Rightarrow> Inr v
      | Inl e \<Rightarrow> if e = FileNotFoundError \<or> e = JSONDecodeError then Inr dflt else Inl e)"

text \<open>Three file systems for examples: no file anywhere, no file readable, no file decodable.\<close>

definition missing_fs :: filesystem where
  "missing_fs path = Inl FileNotFoundError"

definition unreadable_fs :: filesystem where
  "unreadable_fs path = Inl PermissionError"

definition undecodable_fs :: filesystem where
  "undecodable_fs path = Inr (Inl UnicodeDecodeError)"

text \<open>
  \<^verbatim>\<open>for x in v\<close>: a list gives its elements, a dict its keys, a string its characters;
  the other values are not iterable.
\<close>

definition py_iter :: "json \<Rightarrow> exn + json list" where
  "py_iter v =
     (case v of
        JList xs \<Rightarrow> Inr xs
      | JDict kvs \<Rightarrow> Inr (map (\<lambda>(k, _). JStr k) kvs)
      | JStr s \<Rightarrow> Inr (map (\<lambda>c. JStr [c]) s)
      | _ \<Rightarrow> Inl TypeError)"

text \<open>A loop that appends one result per element stops at the first exception.\<close>

fun map_exn :: "('a \<Rightarrow> exn + 'b) \<Rightarrow> 'a list \<Rightarrow> exn + 'b list" where
  "map_exn f [] = Inr []"
| "map_exn f (x # xs) =
     (case f x of
        Inl e \<Rightarrow> Inl e
      | Inr y \<Rightarrow> (case map_exn f xs of Inl e \<Rightarrow> Inl e | Inr ys \<Rightarrow> Inr (y # ys)))"

text \<open>
  \<^verbatim>\<open>xs.sort(key=k, reverse=True)\<close> on keys with a linear order: the list is reversed,
  sorted stably in ascending order and reversed again, so that records with equal keys
  keep their order.
\<close>

definition sort_reverse :: "('a \<Rightarrow> 'k::linorder) \<Rightarrow> 'a list \<Rightarrow> 'a list" where
  "sort_reverse k xs = rev (sort_key k (rev xs))"

section \<open>Travel stops\<close>

record stop =
  stop_id :: pystr
  place :: pystr
  country :: pystr
  lat :: json
  lng :: json
  start_date :: pystr
  end_date :: pystr
  days :: int
  stop_type :: pystr
  notes_md :: json

text \<open>The body of the loop of \<^verbatim>\<open>load_travel_stops\<close>, for one raw record \<open>st\<close>.\<close>

definition normalize_stop :: "pylib \<Rightarrow> json \<Rightarrow> exn + stop" where
  "normalize_stop lib st =
     (case st of
        JDict kv \<Rightarrow>
          (let start = py_str lib (dict_get kv (ascii ''start_date'') (JStr []));
               finish = py_str lib (dict_get kv (ascii ''end_date'') (JStr []))
           in case strip_method (py_or (dict_get kv (ascii ''id'') JNull) (JStr [])) of
                Inl e \<Rightarrow> Inl e
              | Inr raw_id \<Rightarrow>
           (case strip_method (py_or (dict_get kv (ascii ''place'') JNull) (JStr [])) of
                Inl e \<Rightarrow> Inl e
              | Inr plc \<Rightarrow>
           (let fallback_id = py_replace (lower lib plc) (ascii '' '') (ascii ''-'') @ ascii ''-'' @ start;
                sid = (if raw_id \<noteq> [] then raw_id else fallback_id)
            in case strip_method (py_or (dict_get kv (ascii ''country'') JNull) (JStr [])) of
                Inl e \<Rightarrow> Inl e
              | Inr ctry \<Rightarrow>
           (case strip_method (py_or (dict_get kv (ascii ''type'') JNull) (JStr (ascii ''visited''))) of
                Inl e \<Rightarrow> Inl e
              | Inr typ \<Rightarrow>
                Inr \<lparr>stop_id = sid,
                     place = plc,
                     country = ctry,
                     lat = dict_get kv (ascii ''lat'') JNull,
                     lng = dict_get kv (ascii ''lng'') JNull,
                     start_date = start,
                     end_date = finish,
                     days = days_between start finish,
                     stop_type = typ,
                     notes_md = py_or (dict_get kv (ascii ''notes_md'') JNull) (JStr [])\<rparr>))))
      | _ \<Rightarrow> Inl AttributeError)"

text \<open>The loop over the raw records and the final sort (the travel normalizer).\<close>

definition normalize_travel_stops :: "pylib \<Rightarrow> json list \<Rightarrow> exn + stop list" where
  "normalize_travel_stops lib stops =
     (case map_exn (normalize_stop lib) stops of
        Inl e \<Rightarrow> Inl e
      | Inr normalized \<Rightarrow> Inr (sort_reverse (\<lambda>x. parse_date_ymd (start_date x)) normalized))"

definition load_travel_stops :: "pylib \<Rightarrow> filesystem \<Rightarrow> exn + stop list" where
  "load_travel_stops lib fs =
     (case load_json fs (ascii ''content/travel/stops.json'') (JList []) of
        Inl e \<Rightarrow> Inl e
      | Inr stops \<Rightarrow>
          (case py_iter stops of Inl e \<Rightarrow> Inl e | Inr xs \<Rightarrow> normalize_travel_stops lib xs))"

text \<open>
  The raw records on which the loop body raises nothing: a dict whose \<^verbatim>\<open>id\<close>, \<^verbatim>\<open>place\<close>,
  \<^verbatim>\<open>country\<close> and \<^verbatim>\<open>type\<close> are each absent, a string, or a value that tests false
  (\<^verbatim>\<open>null\<close> among them).
\<close>

definition str_or_false :: "json \<Rightarrow> bool" where
  "str_or_false v = (case v of JStr s \<Rightarrow> True | _ \<Rightarrow> \<not> truthy v)"

definition raw_stop_ok :: "json \<Rightarrow> bool" where
  "raw_stop_ok st =
     (case st of
        JDict kv \<Rightarrow>
          list_all (\<lambda>k. str_or_false (dict_get kv k JNull))
            [ascii ''id'', ascii ''place'', ascii ''country'', ascii ''type'']
      | _ \<Rightarrow> False)"

section \<open>Blog posts\<close>

text \<open>\<^verbatim>\<open>slugify\<close>; \<^verbatim>\<open>parts[-1]\<close> is the last element of a list that is never empty.\<close>

definition slugify :: "pystr \<Rightarrow> pystr" where
  "slugify filename =
     (let name = last (rsplit1 47 filename);
          stem = py_replace name (ascii ''.md'') [];
          parts = split_max 45 3 stem
      in if 4 \<le> length parts then last parts else stem)"

text \<open>The slug of a post: \<^verbatim>\<open>meta.get("slug") or slugify(path.name)\<close>.\<close>

definition post_slug :: "(pystr \<times> json) list \<Rightarrow> pystr \<Rightarrow> json" where
  "post_slug meta name = py_or (dict_get meta (ascii ''slug'') JNull) (JStr (slugify name))"

text \<open>
  \<^verbatim>\<open>path.stem\<close>, which the same loop uses for the title: the name without its last
  suffix, where a dot that starts or ends the name begins no suffix.
\<close>

definition path_stem :: "pystr \<Rightarrow> pystr" where
  "path_stem name =
     (let after = takeWhile (\<lambda>c. c \<noteq> 46) (rev name);
          i = length name - length after - 1
      in if 46 \<in> set name \<and> 0 < i \<and> i < length name - 1 then take i name else name)"

text \<open>
  Follows the spec's words, for comparison with \<open>slugify\<close>: the extension is stripped,
  and a stem of four or more hyphen-delimited segments gives what follows its third
  hyphen.
\<close>

definition spec_slug :: "pystr \<Rightarrow> pystr" where
  "spec_slug name =
     (let stem = path_stem name;
          parts = split_max 45 3 stem
      in if 4 \<le> length parts then last parts else stem)"

section \<open>Portfolio items\<close>

definition ellipsis :: nat where
  "ellipsis = 8230"

text \<open>The text of \<^verbatim>\<open>plain_excerpt\<close>: \<^verbatim>\<open>" ".join(md_text.replace("\n", " ").split())\<close>.\<close>

definition collapsed :: "pystr \<Rightarrow> pystr" where
  "collapsed s = py_join (ascii '' '') (py_split (py_replace s [10] (ascii '' '')))"

definition plain_excerpt :: "json \<Rightarrow> int \<Rightarrow> exn + pystr" where
  "plain_excerpt md_text max_len =
     (if \<not> truthy md_text then Inr []
      else (case md_text of
              JStr s \<Rightarrow>
                (let text = collapsed s
                 in Inr (if max_len < int (length text)
                         then slice_to text (max_len - 1) @ [ellipsis]
                         else text))
            | _ \<Rightarrow> Inl AttributeError))"

record item =
  item_type :: pystr
  title :: pystr
  slug :: pystr
  year :: json
  tags :: json
  cover_image :: json
  description_md :: json
  excerpt :: pystr
  images :: json
  video_url :: json
  credits :: json

text \<open>The body of the loop of \<^verbatim>\<open>load_portfolio_items\<close>, for one raw record \<open>it\<close>.\<close>

definition normalize_item :: "json \<Rightarrow> exn + item" where
  "normalize_item it =
     (case it of
        JDict kv \<Rightarrow>
          (case strip_method (dict_get kv (ascii ''type'') (JStr [])) of
             Inl e \<Rightarrow> Inl e
           | Inr typ \<Rightarrow>
          (case strip_method (dict_get kv (ascii ''title'') (JStr [])) of
             Inl e \<Rightarrow> Inl e
           | Inr ttl \<Rightarrow>
          (case strip_method (dict_get kv (ascii ''slug'') (JStr [])) of
             Inl e \<Rightarrow> Inl e
           | Inr slg \<Rightarrow>
          (case plain_excerpt (dict_get kv (ascii ''description_md'') (JStr [])) 120 of
             Inl e \<Rightarrow> Inl e
           | Inr exc \<Rightarrow>
               Inr \<lparr>item_type = typ,
                    title = ttl,
                    slug = slg,
                    year = dict_get kv (ascii ''year'') JNull,
                    tags = dict_get kv (ascii ''tags'') (JList []),
                    cover_image = dict_get kv (ascii ''cover_image'') (JStr []),
                    description_md = dict_get kv (ascii ''description_md'') (JStr []),
                    excerpt = exc,
                    images = dict_get kv (ascii ''images'') (JList []),
                    video_url = dict_get kv (ascii ''video_url'') (JStr []),
                    credits = dict_get kv (ascii ''credits'') (JList [])\<rparr>))))
      | _ \<Rightarrow> Inl AttributeError)"

text \<open>
  The keys of the final sort, \<^verbatim>\<open>x["year"] or 0\<close>, are arbitrary values, and comparing
  them can raise \<^verbatim>\<open>TypeError\<close>. The sort of a list by such keys is a parameter: it is
  given the key function and the list, and raises or returns the sorted list.
\<close>

type_synonym year_sort = "(item \<Rightarrow> json) \<Rightarrow> item list \<Rightarrow> exn + item list"

definition normalize_portfolio_items :: "year_sort \<Rightarrow> json list \<Rightarrow> exn + item list" where
  "normalize_portfolio_items sort_by items =
     (case map_exn normalize_item items of
        Inl e \<Rightarrow> Inl e
      | Inr normalized \<Rightarrow> sort_by (\<lambda>x. py_or (year x) (JInt 0)) normalized)"

definition load_portfolio_items :: "year_sort \<Rightarrow> filesystem \<Rightarrow> exn + item list" where
  "load_portfolio_items sort_by fs =
     (case load_json fs (ascii ''content/portfolio/items.json'') (JList []) of
        Inl e \<Rightarrow> Inl e
      | Inr items \<Rightarrow>
          (case py_iter items of Inl e \<Rightarrow> Inl e | Inr xs \<Rightarrow> normalize_portfolio_items sort_by xs))"

section \<open>The access gate\<close>

text \<open>
  The session is the per-client dict of the session store. The application reads and
  writes one key of it, \<^verbatim>\<open>scrapbook_authed\<close>. Messages queued by \<^verbatim>\<open>flash\<close> are kept
  beside it as a list of (message, category). The environment and the submitted form are
  dicts from names to strings.
\<close>

datatype http_method = GET | POST

record request =
  req_method :: http_method
  req_form :: "pystr \<rightharpoonup> pystr"

record client =
  session :: "pystr \<rightharpoonup> json"
  flashes :: "(pystr \<times> pystr) list"

datatype response =
    Redirect pystr nat
  | Render_template pystr

definition authed_key :: pystr where
  "authed_key = ascii ''scrapbook_authed''"

text \<open>\<^verbatim>\<open>session.get("scrapbook_authed")\<close>, tested for truth.\<close>

definition session_authed :: "client \<Rightarrow> bool" where
  "session_authed c = (case session c authed_key of None \<Rightarrow> False | Some v \<Rightarrow> truthy v)"

datatype gate = Anonymous | Authorized

definition gate_state :: "client \<Rightarrow> gate" where
  "gate_state c = (if session_authed c then Authorized else Anonymous)"

text \<open>\<^verbatim>\<open>os.getenv(name, default)\<close> and \<^verbatim>\<open>request.form.get(name, default)\<close>.\<close>

definition get_or :: "(pystr \<rightharpoonup> pystr) \<Rightarrow> pystr \<Rightarrow> pystr \<Rightarrow> pystr" where
  "get_or m k dflt = (case m k of None \<Rightarrow> dflt | Some v \<Rightarrow> v)"

text \<open>The paths of the routes, as \<^verbatim>\<open>url_for\<close> builds them from the route table.\<close>

definition url_for_scrapbook :: pystr where
  "url_for_scrapbook = ascii ''/scrapbook''"

definition url_for_home :: pystr where
  "url_for_home = ascii ''/''"

definition submitted_password :: "request \<Rightarrow> pystr" where
  "submitted_password req = get_or (req_form req) (ascii ''password'') []"

definition expected_secret :: "(pystr \<rightharpoonup> pystr) \<Rightarrow> pystr" where
  "expected_secret env = get_or env (ascii ''SCRAPBOOK_PASSWORD'') []"

text \<open>
  \<^verbatim>\<open>login\<close>: the view of \<^verbatim>\<open>/login\<close> (GET and POST). It returns the client's new state and
  the response.
\<close>

definition login :: "(pystr \<rightharpoonup> pystr) \<Rightarrow> client \<Rightarrow> request \<Rightarrow> client \<times> response" where
  "login env c req =
     (if session_authed c then (c, Redirect url_for_scrapbook 303)
      else if req_method req = POST then
        (let password = submitted_password req;
             expected = expected_secret env
         in if expected \<noteq> [] \<and> password = expected then
              (c\<lparr>session := (session c)(authed_key \<mapsto> JBool True)\<rparr>,
               Redirect
                 (let next_url = get_or (req_form req) (ascii ''next'') []
                  in if next_url \<noteq> [] then next_url else url_for_scrapbook)
                 303)
            else
              (c\<lparr>flashes := flashes c @ [(ascii ''Incorrect password.'', ascii ''danger'')]\<rparr>,
               Render_template (ascii ''login.html'')))
      else (c, Render_template (ascii ''login.html'')))"

text \<open>\<^verbatim>\<open>logout\<close>: \<^verbatim>\<open>session.pop("scrapbook_authed", None)\<close>, then a redirect to the home page.\<close>

definition logout :: "client \<Rightarrow> client \<times> response" where
  "logout c = (c\<lparr>session := (session c)(authed_key := None)\<rparr>, Redirect url_for_home 302)"

text \<open>
  Instances of the parameters for examples whose dates are strings and whose place names
  are in lower case already, and in which the final sort of the portfolio has nothing to
  reorder.
\<close>

definition sample_lib :: pylib where
  "sample_lib = \<lparr>str_of = (\<lambda>v. []), lower = (\<lambda>s. s)\<rparr>"

definition keep_order :: year_sort where
  "keep_order k xs = Inr xs"

section \<open>Properties of the access gate\<close>

lemma session_authed_set [simp]:
  "session_authed (c\<lparr>session := (session c)(authed_key \<mapsto> JBool True)\<rparr>)"
  by (simp add: session_authed_def)

lemma session_authed_flash [simp]:
  "session_authed (c\<lparr>flashes := fs\<rparr>) = session_authed c"
  by (simp add: session_authed_def)

lemma session_authed_pop [simp]:
  "\<not> session_authed (c\<lparr>session := (session c)(authed_key := None)\<rparr>)"
  by (simp add: session_authed_def)

text \<open>
  Claim C1. With an empty or unset expected secret, \<^verbatim>\<open>login\<close> never writes the session,
  whatever password is submitted (the empty one included); and a credential submission
  (POST) from an anonymous session ends authorized exactly when the expected secret is
  non-empty and the submitted password equals it, code point for code point. A GET from
  an anonymous session never authorizes.
\<close>

theorem login_authorizes_iff:
  "(expected_secret env = [] \<longrightarrow> session (fst (login env c req)) = session c)
   \<and> (gate_state c = Anonymous \<longrightarrow>
        (gate_state (fst (login env c req)) = Authorized
         \<longleftrightarrow> req_method req = POST \<and> expected_secret env \<noteq> []
             \<and> submitted_password req = expected_secret env))"
  by (simp add: login_def gate_state_def Let_def)

theorem login_authorizes_iff_witness:
  "expected_secret Map.empty = []
   \<and> session (fst (login Map.empty \<lparr>session = Map.empty, flashes = []\<rparr>
        \<lparr>req_method = POST, req_form = [ascii ''password'' \<mapsto> []]\<rparr>)) = Map.empty
   \<and> gate_state \<lparr>session = Map.empty, flashes = []\<rparr> = Anonymous
   \<and> gate_state (fst (login [ascii ''SCRAPBOOK_PASSWORD'' \<mapsto> ascii ''Secret'']
        \<lparr>session = Map.empty, flashes = []\<rparr>
        \<lparr>req_method = POST, req_form = [ascii ''password'' \<mapsto> ascii ''Secret'']\<rparr>)) = Authorized
   \<and> gate_state (fst (login [ascii ''SCRAPBOOK_PASSWORD'' \<mapsto> ascii ''Secret'']
        \<lparr>session = Map.empty, flashes = []\<rparr>
        \<lparr>req_method = POST, req_form = [ascii ''password'' \<mapsto> ascii ''secret'']\<rparr>)) = Anonymous"
proof -
  let ?c = "\<lparr>session = Map.empty, flashes = []\<rparr>"
  let ?env = "[ascii ''SCRAPBOOK_PASSWORD'' \<mapsto> ascii ''Secret'']"
  have e: "expected_secret Map.empty = []"
    by (simp add: expected_secret_def get_or_def)
  have a: "gate_state ?c = Anonymous"
    by (simp add: gate_state_def session_authed_def)
  have env: "expected_secret ?env = ascii ''Secret''"
    by (simp add: expected_secret_def get_or_def)
  have p1: "submitted_password \<lparr>req_method = POST, req_form = [ascii ''password'' \<mapsto> ascii ''Secret'']\<rparr>
      = ascii ''Secret''"
    by (simp add: submitted_password_def get_or_def)
  have p2: "submitted_password \<lparr>req_method = POST, req_form = [ascii ''password'' \<mapsto> ascii ''secret'']\<rparr>
      = ascii ''secret''"
    by (simp add: submitted_password_def get_or_def)
  have ne: "ascii ''secret'' \<noteq> ascii ''Secret''" "ascii ''Secret'' \<noteq> []"
    by (simp_all add: ascii_def)
  have g: "\<And>g. g \<noteq> Authorized \<Longrightarrow> g = Anonymous"
    by (metis gate.exhaust)
  show ?thesis
    using login_authorizes_iff [of Map.empty ?c
        "\<lparr>req_method = POST, req_form = [ascii ''password'' \<mapsto> []]\<rparr>"]
      login_authorizes_iff [of ?env ?c
        "\<lparr>req_method = POST, req_form = [ascii ''password'' \<mapsto> ascii ''Secret'']\<rparr>"]
      login_authorizes_iff [of ?env ?c
        "\<lparr>req_method = POST, req_form = [ascii ''password'' \<mapsto> ascii ''secret'']\<rparr>"]
      e a env p1 p2 ne g
    by simp
qed

text \<open>
  Claim C8. From either state \<^verbatim>\<open>logout\<close> ends in \<open>Anonymous\<close>, and logging out twice
  leaves the client exactly as logging out once does.
\<close>

theorem logout_anonymous_idempotent:
  "gate_state (fst (logout c)) = Anonymous
   \<and> fst (logout (fst (logout c))) = fst (logout c)
   \<and> snd (logout c) = Redirect url_for_home 302"
  by (simp add: logout_def gate_state_def)

text \<open>
  Claim C9. For a session that is already authorized, \<^verbatim>\<open>login\<close> returns the client
  unchanged and redirects (303) to the scrapbook page, for every method, every form and
  every environment: the result does not depend on the submitted password or on the
  expected secret.
\<close>

theorem login_when_authorized:
  "gate_state c = Authorized \<Longrightarrow> login env c req = (c, Redirect url_for_scrapbook 303)"
  by (simp add: login_def gate_state_def split: if_splits)

theorem login_when_authorized_witness:
  "gate_state \<lparr>session = [authed_key \<mapsto> JBool True], flashes = []\<rparr> = Authorized
   \<and> login [ascii ''SCRAPBOOK_PASSWORD'' \<mapsto> ascii ''Secret'']
        \<lparr>session = [authed_key \<mapsto> JBool True], flashes = []\<rparr>
        \<lparr>req_method = POST, req_form = [ascii ''password'' \<mapsto> ascii ''wrong'']\<rparr>
      = (\<lparr>session = [authed_key \<mapsto> JBool True], flashes = []\<rparr>, Redirect url_for_scrapbook 303)"
proof -
  have a: "gate_state \<lparr>session = [authed_key \<mapsto> JBool True], flashes = []\<rparr> = Authorized"
    by (simp add: gate_state_def session_authed_def)
  from a login_when_authorized [OF a] show ?thesis by simp
qed

section \<open>Properties of the content loader\<close>

text \<open>
  Claim C7, as stated, fails: a file that cannot be read, or whose bytes are not UTF-8,
  makes \<^verbatim>\<open>load_json\<close> raise, since its handler names two exceptions only.
\<close>

theorem load_json_raises_counterexample:
  "load_json unreadable_fs (ascii ''content/travel/stops.json'') (JList []) = Inl PermissionError
   \<and> load_json undecodable_fs (ascii ''content/travel/stops.json'') (JList [])
       = Inl UnicodeDecodeError"
  by (simp add: load_json_def unreadable_fs_def undecodable_fs_def)

text \<open>
  Claim C7, amended. \<^verbatim>\<open>load_json\<close> returns the parsed value when the file opens and
  parses; it returns the default, unchanged, when opening raises \<^verbatim>\<open>FileNotFoundError\<close>
  or parsing raises \<^verbatim>\<open>JSONDecodeError\<close>; every other exception of opening or reading
  reaches the caller.
\<close>

theorem load_json_handles:
  "(fs path = Inr (Inr v) \<longrightarrow> load_json fs path dflt = Inr v)
   \<and> (fs path = Inl FileNotFoundError \<or> fs path = Inr (Inl JSONDecodeError)
        \<longrightarrow> load_json fs path dflt = Inr dflt)
   \<and> ((fs path = Inl e \<or> fs path = Inr (Inl e)) \<and> e \<noteq> FileNotFoundError \<and> e \<noteq> JSONDecodeError
        \<longrightarrow> load_json fs path dflt = Inl e)"
  by (auto simp: load_json_def)

theorem load_json_handles_witness:
  "missing_fs (ascii ''content/travel/stops.json'') = Inl FileNotFoundError
   \<and> load_json missing_fs (ascii ''content/travel/stops.json'') (JList []) = Inr (JList [])"
  using load_json_handles
    [of missing_fs "ascii ''content/travel/stops.json''" JNull "JList []" FileNotFoundError]
  by (simp add: missing_fs_def)

text \<open>A collection whose file is missing loads as the empty list.\<close>

lemma load_travel_stops_missing: "load_travel_stops lib missing_fs = Inr []"
  by (simp add: load_travel_stops_def load_json_def missing_fs_def py_iter_def
      normalize_travel_stops_def sort_reverse_def)

lemma load_portfolio_items_missing:
  "load_portfolio_items sort_by missing_fs = sort_by (\<lambda>x. py_or (year x) (JInt 0)) []"
  by (simp add: load_portfolio_items_def load_json_def missing_fs_def py_iter_def
      normalize_portfolio_items_def)

section \<open>Properties of the slug\<close>

text \<open>
  Claim C4 at a file name that holds \<^verbatim>\<open>.md\<close> before its extension: \<^verbatim>\<open>slugify\<close> removes
  every \<^verbatim>\<open>.md\<close>, where stripping the extension removes the last one only.
\<close>

theorem slugify_inner_md:
  "slugify (ascii ''2024-03-10-readme.md-tips.md'') = ascii ''readme-tips''
   \<and> spec_slug (ascii ''2024-03-10-readme.md-tips.md'') = ascii ''readme.md-tips''
   \<and> post_slug [] (ascii ''2024-03-10-readme.md-tips.md'') = JStr (ascii ''readme-tips'')"
  by code_simp

lemma slugify_examples:
  "slugify (ascii ''2024-03-10-my-trip.md'') = ascii ''my-trip''"
  "slugify (ascii ''2024-03-10.md'') = ascii ''2024-03-10''"
  by code_simp+

text \<open>
  Where \<^verbatim>\<open>.md\<close> occurs as the extension only, \<^verbatim>\<open>slugify\<close> does strip the extension.
\<close>

lemma replace_scan_suffix_only:
  "46 \<notin> set stem \<Longrightarrow> replace_scan 0 (ascii ''.md'') [] (stem @ ascii ''.md'') = stem"
  by (induction stem) (auto simp: ascii_def)

lemma path_stem_md:
  assumes "46 \<notin> set stem" "stem \<noteq> []"
  shows "path_stem (stem @ ascii ''.md'') = stem"
proof -
  have "takeWhile (\<lambda>c. c \<noteq> 46) (rev (stem @ ascii ''.md'')) = [100, 109]"
    by (simp add: ascii_def)
  then show ?thesis
    using assms(2) by (simp add: path_stem_def Let_def) (simp add: ascii_def)
qed

lemma slugify_agrees:
  assumes "46 \<notin> set stem" "47 \<notin> set stem" "stem \<noteq> []"
  shows "slugify (stem @ ascii ''.md'') = spec_slug (stem @ ascii ''.md'')"
proof -
  have "47 \<notin> set (stem @ ascii ''.md'')"
    using assms(2) by (simp add: ascii_def)
  then have "last (rsplit1 47 (stem @ ascii ''.md'')) = stem @ ascii ''.md''"
    by (simp add: rsplit1_def)
  moreover have "py_replace (stem @ ascii ''.md'') (ascii ''.md'') [] = stem"
    using replace_scan_suffix_only [OF assms(1)] by (simp add: py_replace_def)
  ultimately show ?thesis
    by (simp add: slugify_def spec_slug_def path_stem_md [OF assms(1,3)])
qed

section \<open>Properties of the excerpt\<close>

lemma not_space_word: "\<forall>c\<in>set w. \<not> is_space c \<Longrightarrow> successively (\<lambda>a b. \<not> double_space a b) w"
  by (induction w) (auto simp: successively_Cons double_space_def)

lemma split_ws_words:
  "\<forall>c\<in>set cur. \<not> is_space c \<Longrightarrow>
   \<forall>w\<in>set (split_ws cur s). w \<noteq> [] \<and> (\<forall>c\<in>set w. \<not> is_space c)"
proof (induction s arbitrary: cur)
  case Nil
  then show ?case by simp
next
  case (Cons a s)
  show ?case
  proof (cases "is_space a")
    case True
    with Cons.prems Cons.IH [of "[]"] show ?thesis by simp
  next
    case False
    with Cons.prems Cons.IH [of "cur @ [a]"] show ?thesis by simp
  qed
qed

lemma concat_split_ws: "concat (split_ws cur s) = cur @ filter (\<lambda>c. \<not> is_space c) s"
  by (induction s arbitrary: cur) auto

lemma replace_scan_char: "replace_scan 0 [a] [b] s = map (\<lambda>c. if c = a then b else c) s"
  by (induction s) auto

lemma split_ws_map:
  "\<forall>c. is_space (f c) = is_space c \<Longrightarrow> \<forall>c. \<not> is_space c \<longrightarrow> f c = c \<Longrightarrow> split_ws cur (map f s) = split_ws cur s"
  by (induction s arbitrary: cur) auto

lemma space_is_space: "is_space 32" "is_space 10"
  by (simp_all add: is_space_def)

lemma collapsed_eq: "collapsed s = py_join [32] (py_split s)"
proof -
  have "py_replace s [10] (ascii '' '') = map (\<lambda>c. if c = 10 then 32 else c) s"
    by (simp add: py_replace_def ascii_def replace_scan_char)
  moreover have "split_ws [] (map (\<lambda>c. if c = 10 then 32 else c) s) = split_ws [] s"
    by (rule split_ws_map) (auto simp: space_is_space)
  ultimately show ?thesis
    by (simp add: collapsed_def py_split_def ascii_def)
qed

lemma py_split_words: "w \<in> set (py_split s) \<Longrightarrow> w \<noteq> [] \<and> (\<forall>c\<in>set w. \<not> is_space c)"
  unfolding py_split_def using split_ws_words [of "[]" s] by simp

lemma concat_py_split: "concat (py_split s) = filter (\<lambda>c. \<not> is_space c) s"
  by (simp add: py_split_def concat_split_ws)

lemma set_py_join: "set (py_join sep ws) \<subseteq> set sep \<union> \<Union> (set ` set ws)"
  by (induction sep ws rule: py_join.induct) auto

lemma filter_py_join:
  "filter P sep = [] \<Longrightarrow> \<forall>w\<in>set ws. \<forall>c\<in>set w. P c \<Longrightarrow> filter P (py_join sep ws) = concat ws"
  by (induction sep ws rule: py_join.induct) (auto simp: filter_id_conv)

lemma py_join_Nil_iff: "\<forall>w\<in>set ws. w \<noteq> [] \<Longrightarrow> py_join sep ws = [] \<longleftrightarrow> ws = []"
  by (induction sep ws rule: py_join.induct) auto

lemma hd_py_join: "ws \<noteq> [] \<Longrightarrow> hd ws \<noteq> [] \<Longrightarrow> hd (py_join sep ws) = hd (hd ws)"
  by (induction sep ws rule: py_join.induct) auto

lemma last_py_join:
  "ws \<noteq> [] \<Longrightarrow> \<forall>w\<in>set ws. w \<noteq> [] \<Longrightarrow> last (py_join sep ws) = last (last ws)"
  by (induction sep ws rule: py_join.induct) (auto simp: py_join_Nil_iff)

lemma successively_py_join:
  "\<forall>w\<in>set ws. w \<noteq> [] \<and> (\<forall>c\<in>set w. \<not> is_space c) \<Longrightarrow>
   successively (\<lambda>a b. \<not> double_space a b) (py_join [32] ws)"
proof (induction "[32::nat]" ws rule: py_join.induct)
  case 1
  then show ?case by simp
next
  case (2 w)
  then show ?case by (simp add: not_space_word)
next
  case (3 w v ws)
  have w: "w \<noteq> []" "\<forall>c\<in>set w. \<not> is_space c" using 3(2) by auto
  have j: "py_join [32] (v # ws) \<noteq> []" using 3(2) py_join_Nil_iff [of "v # ws" "[32]"] by auto
  have "successively (\<lambda>a b. \<not> double_space a b) (py_join [32] (v # ws))"
    using 3 by simp
  moreover have "\<not> is_space (hd (py_join [32] (v # ws)))"
    using 3(2) hd_py_join [of "v # ws" "[32]"] by (cases v) auto
  then have "\<not> double_space 32 (hd (py_join [32] (v # ws)))"
    by (simp add: double_space_def)
  moreover have "\<not> double_space (last w) 32"
    using w by (simp add: double_space_def)
  moreover have "successively (\<lambda>a b. \<not> double_space a b) w"
    using w by (simp add: not_space_word)
  ultimately show ?case
    using w j by (simp add: successively_append_iff successively_Cons)
qed

lemma collapsed_spaces: "c \<in> set (collapsed s) \<Longrightarrow> is_space c \<Longrightarrow> c = 32"
  using set_py_join [of "[32]" "py_split s"] py_split_words [of _ s]
  by (auto simp: collapsed_eq)

lemma collapsed_ends:
  assumes "collapsed s \<noteq> []"
  shows "\<not> is_space (hd (collapsed s)) \<and> \<not> is_space (last (collapsed s))"
proof -
  let ?ws = "py_split s"
  have ne: "?ws \<noteq> []" using assms by (auto simp: collapsed_eq)
  have all: "\<forall>w\<in>set ?ws. w \<noteq> [] \<and> (\<forall>c\<in>set w. \<not> is_space c)"
    using py_split_words by blast
  have "hd ?ws \<in> set ?ws" "last ?ws \<in> set ?ws" using ne by simp_all
  then have "\<not> is_space (hd (hd ?ws))" "\<not> is_space (last (last ?ws))" "hd ?ws \<noteq> []"
    using all by (simp_all add: hd_in_set)
  then show ?thesis
    using ne all by (simp add: collapsed_eq hd_py_join last_py_join)
qed

lemma collapsed_single_spaced: "successively (\<lambda>a b. \<not> double_space a b) (collapsed s)"
  unfolding collapsed_eq by (rule successively_py_join) (use py_split_words in blast)

lemma collapsed_content: "filter (\<lambda>c. \<not> is_space c) (collapsed s) = filter (\<lambda>c. \<not> is_space c) s"
proof -
  have "filter (\<lambda>c. \<not> is_space c) (py_join [32] (py_split s)) = concat (py_split s)"
    by (rule filter_py_join) (use py_split_words in \<open>auto simp: space_is_space\<close>)
  then show ?thesis by (simp add: collapsed_eq concat_py_split)
qed

text \<open>
  Claim C5. For a limit of at least 1: the excerpt of an absent or empty text is empty;
  otherwise it is the collapsed text when that has at most \<open>max_len\<close> characters, and
  else its first \<open>max_len - 1\<close> characters and the ellipsis, \<open>max_len\<close> characters in
  all, cut wherever the count falls. The collapsed text is the words of the input (its
  maximal runs without whitespace, newlines being whitespace) joined by single spaces:
  its only whitespace is the space, it neither starts nor ends with one, and no two are
  adjacent.
\<close>

theorem plain_excerpt_collapses_and_truncates:
  assumes "1 \<le> max_len"
  shows "plain_excerpt JNull max_len = Inr []
    \<and> plain_excerpt (JStr []) max_len = Inr []
    \<and> plain_excerpt (JStr s) max_len =
        Inr (if int (length (collapsed s)) \<le> max_len then collapsed s
             else take (nat (max_len - 1)) (collapsed s) @ [ellipsis])
    \<and> (max_len < int (length (collapsed s)) \<longrightarrow>
         (\<exists>r. plain_excerpt (JStr s) max_len = Inr r \<and> int (length r) = max_len \<and> last r = ellipsis))
    \<and> collapsed s = py_join (ascii '' '') (py_split s)
    \<and> (\<forall>w\<in>set (py_split s). w \<noteq> [] \<and> (\<forall>c\<in>set w. \<not> is_space c))
    \<and> concat (py_split s) = filter (\<lambda>c. \<not> is_space c) s
    \<and> (\<forall>c\<in>set (collapsed s). is_space c \<longrightarrow> c = 32)
    \<and> (collapsed s \<noteq> [] \<longrightarrow> \<not> is_space (hd (collapsed s)) \<and> \<not> is_space (last (collapsed s)))
    \<and> successively (\<lambda>a b. \<not> double_space a b) (collapsed s)"
proof -
  have c0: "collapsed [] = []"
    by (simp add: collapsed_eq py_split_def)
  have e: "plain_excerpt (JStr s) max_len =
        Inr (if int (length (collapsed s)) \<le> max_len then collapsed s
             else take (nat (max_len - 1)) (collapsed s) @ [ellipsis])"
    using assms c0 by (cases "s = []") (auto simp: plain_excerpt_def slice_to_def Let_def)
  have t: "max_len < int (length (collapsed s)) \<longrightarrow>
         (\<exists>r. plain_excerpt (JStr s) max_len = Inr r \<and> int (length r) = max_len \<and> last r = ellipsis)"
    using assms by (auto simp: e)
  show ?thesis
    using e t collapsed_spaces collapsed_ends collapsed_single_spaced py_split_words concat_py_split
    by (simp add: plain_excerpt_def collapsed_eq ascii_def)
qed


theorem plain_excerpt_collapses_and_truncates_witness:
  "(1::int) \<le> 4
   \<and> plain_excerpt (JStr (ascii ''  a  b '' @ [10, 10] @ ascii ''c  '')) 4 = Inr (ascii ''a b'' @ [ellipsis])
   \<and> (1::int) \<le> 120
   \<and> plain_excerpt (JStr (ascii ''short'')) 120 = Inr (ascii ''short'')"
proof -
  have c1: "collapsed (ascii ''  a  b '' @ [10, 10] @ ascii ''c  '') = ascii ''a b c''"
    by (simp add: collapsed_eq py_split_def ascii_def is_space_def)
  have c2: "collapsed (ascii ''short'') = ascii ''short''"
    by (simp add: collapsed_eq py_split_def ascii_def is_space_def)
  have l: "length (ascii ''a b c'') = 5" "length (ascii ''short'') = 5" "take 3 (ascii ''a b c'') = ascii ''a b''"
    by (simp_all add: ascii_def)
  have h4: "(1::int) \<le> 4" and h120: "(1::int) \<le> 120"
    by simp_all
  have e1: "plain_excerpt (JStr (ascii ''  a  b '' @ [10, 10] @ ascii ''c  '')) 4 =
        Inr (if int (length (collapsed (ascii ''  a  b '' @ [10, 10] @ ascii ''c  ''))) \<le> 4
             then collapsed (ascii ''  a  b '' @ [10, 10] @ ascii ''c  '')
             else take (nat (4 - 1)) (collapsed (ascii ''  a  b '' @ [10, 10] @ ascii ''c  '')) @ [ellipsis])"
    using plain_excerpt_collapses_and_truncates [OF h4, of "ascii ''  a  b '' @ [10, 10] @ ascii ''c  ''"]
    by (elim conjE)
  have e2: "plain_excerpt (JStr (ascii ''short'')) 120 =
        Inr (if int (length (collapsed (ascii ''short''))) \<le> 120 then collapsed (ascii ''short'')
             else take (nat (120 - 1)) (collapsed (ascii ''short'')) @ [ellipsis])"
    using plain_excerpt_collapses_and_truncates [OF h120, of "ascii ''short''"]
    by (elim conjE)
  show ?thesis
    unfolding e1 e2 c1 c2 by (simp add: l)
qed

section \<open>Properties of the normalizers\<close>

lemma map_exn_Inr_all: "map_exn f xs = Inr ys \<Longrightarrow> x \<in> set xs \<Longrightarrow> \<exists>y. f x = Inr y"
  by (induction xs arbitrary: ys) (auto split: sum.splits)

lemma map_exn_total: "\<forall>x\<in>set xs. \<exists>y. f x = Inr y \<Longrightarrow> \<exists>ys. map_exn f xs = Inr ys"
  by (induction xs) (auto split: sum.splits)

lemma map_exn_length: "map_exn f xs = Inr ys \<Longrightarrow> length ys = length xs"
  by (induction xs arbitrary: ys) (auto split: sum.splits)

lemma strip_method_Inr: "strip_method v = Inr t \<Longrightarrow> \<exists>s. v = JStr s"
  by (cases v) (auto simp: strip_method_def)

lemma dict_get_present: "map_of kv k = Some v \<Longrightarrow> dict_get kv k d = v"
  by (simp add: dict_get_def)

lemma strip_method_py_or:
  "strip_method (py_or v (JStr d)) =
     (if str_or_false v
      then Inr (py_strip (case v of JStr s \<Rightarrow> if s = [] then d else s | _ \<Rightarrow> d))
      else Inl AttributeError)"
  by (cases v) (auto simp: strip_method_def py_or_def str_or_false_def)

lemma normalize_stop_returns_iff: "(\<exists>r. normalize_stop lib st = Inr r) \<longleftrightarrow> raw_stop_ok st"
proof (cases st)
  case (JDict kv)
  then show ?thesis
    by (simp add: normalize_stop_def raw_stop_ok_def strip_method_py_or Let_def)
qed (simp_all add: normalize_stop_def raw_stop_ok_def)

lemma stop_type_rule:
  assumes "normalize_stop lib (JDict kv) = Inr r"
  shows "stop_type r =
     (case dict_get kv (ascii ''type'') JNull of
        JStr s \<Rightarrow> if s = [] then ascii ''visited'' else py_strip s
      | _ \<Rightarrow> ascii ''visited'')"
proof -
  have v: "py_strip (ascii ''visited'') = ascii ''visited''"
    by (simp add: py_strip_def ascii_def is_space_def)
  from assms show ?thesis
    by (cases "dict_get kv (ascii ''type'') JNull")
       (auto simp: normalize_stop_def strip_method_py_or Let_def v split: if_splits)
qed

text \<open>
  Claim C6 at a type of three spaces: the default is chosen before the value is trimmed,
  so the type comes out empty, not \<^verbatim>\<open>visited\<close>. An empty type does get the default, and
  an id of three spaces, which is trimmed before its default is chosen, does get its
  fallback.
\<close>

theorem blank_type_whitespace:
  "map_sum id stop_type (normalize_stop lib (JDict [(ascii ''type'', JStr (ascii ''   ''))])) = Inr []
   \<and> map_sum id stop_type (normalize_stop lib (JDict [(ascii ''type'', JStr [])])) = Inr (ascii ''visited'')
   \<and> map_sum id stop_id (normalize_stop lib (JDict [(ascii ''id'', JStr (ascii ''   ''))]))
       = Inr (py_replace (lower lib []) (ascii '' '') (ascii ''-'') @ ascii ''-'' @ [])"
  by (simp add: normalize_stop_def dict_get_def ascii_def py_or_def strip_method_def py_strip_def
      is_space_def py_str_def Let_def)

lemma normalize_item_strings:
  assumes "normalize_item it = Inr r"
  shows "\<exists>kv. it = JDict kv \<and>
     (\<forall>k\<in>{ascii ''type'', ascii ''title'', ascii ''slug''}. \<forall>v. map_of kv k = Some v \<longrightarrow> (\<exists>s. v = JStr s))"
proof -
  from assms obtain kv where it: "it = JDict kv"
    by (cases it) (auto simp: normalize_item_def)
  from assms it obtain a b c where
    "strip_method (dict_get kv (ascii ''type'') (JStr [])) = Inr a"
    "strip_method (dict_get kv (ascii ''title'') (JStr [])) = Inr b"
    "strip_method (dict_get kv (ascii ''slug'') (JStr [])) = Inr c"
    by (auto simp: normalize_item_def split: sum.splits)
  then have "\<exists>s. dict_get kv (ascii ''type'') (JStr []) = JStr s"
    "\<exists>s. dict_get kv (ascii ''title'') (JStr []) = JStr s"
    "\<exists>s. dict_get kv (ascii ''slug'') (JStr []) = JStr s"
    by (auto dest: strip_method_Inr)
  with it show ?thesis
    by (auto simp: dict_get_present)
qed

section \<open>Properties of the date utility\<close>

lemma make_date_Some:
  "make_date y m d = Some dt \<longleftrightarrow>
     dt = (y, m, d) \<and> 1 \<le> y \<and> y \<le> 9999 \<and> 1 \<le> m \<and> m \<le> 12 \<and> 1 \<le> d \<and> d \<le> days_in_month y m"
  by (auto simp: make_date_def)

lemma date_of_groups_Some:
  assumes "date_of_groups y m d = Some dt"
  shows "\<exists>yy mm dd. int_of_group y = Some yy \<and> int_of_group m = Some mm
           \<and> int_of_group d = Some dd \<and> make_date yy mm dd = Some dt"
  using assms by (simp add: date_of_groups_def split: option.splits)

lemma strptime_ymd_Inr:
  assumes "strptime_ymd s = Inr dt"
  shows "\<exists>y m d ps. re_match_ymd s = (y, m, d, []) # ps \<and> date_of_groups y m d = Some dt"
proof (cases "re_match_ymd s")
  case Nil
  with assms show ?thesis by (simp add: strptime_ymd_def)
next
  case (Cons p ps)
  obtain y m d rest where p: "p = (y, m, d, rest)" by (cases p) auto
  from assms Cons p have rest: "rest = []"
    by (simp add: strptime_ymd_def split: if_splits)
  from assms Cons p rest have "date_of_groups y m d = Some dt"
    by (cases "date_of_groups y m d") (simp_all add: strptime_ymd_def)
  with Cons p rest show ?thesis by blast
qed

lemma strptime_ymd_valid:
  assumes "strptime_ymd s = Inr (y, m, d)"
  shows "1 \<le> y \<and> y \<le> 9999 \<and> 1 \<le> m \<and> m \<le> 12 \<and> 1 \<le> d \<and> d \<le> days_in_month y m"
proof -
  from strptime_ymd_Inr [OF assms] obtain a b c where "date_of_groups a b c = Some (y, m, d)"
    by blast
  from date_of_groups_Some [OF this] show ?thesis
    by (auto simp: make_date_Some)
qed

lemma div_step:
  fixes y k :: int
  assumes "0 < k"
  shows "y div k = (y - 1) div k + (if y mod k = 0 then 1 else 0)"
proof -
  define r where "r = y mod k"
  define q where "q = y div k"
  have y: "y = k * q + r" by (simp add: q_def r_def)
  have r: "0 \<le> r" "r < k" using assms by (simp_all add: r_def)
  show ?thesis
  proof (cases "r = 0")
    case True
    have "(y - 1) div k = q - 1"
      by (rule int_div_pos_eq [of _ _ _ "k - 1"]) (use assms in \<open>simp_all add: y True algebra_simps\<close>)
    with True show ?thesis by (simp add: q_def r_def)
  next
    case False
    have "(y - 1) div k = q"
      by (rule int_div_pos_eq [of _ _ _ "r - 1"]) (use r False in \<open>simp_all add: y\<close>)
    with False show ?thesis by (simp add: q_def r_def)
  qed
qed

lemma mod_400_100: "(y::int) mod 400 = 0 \<Longrightarrow> y mod 100 = 0"
proof -
  assume "y mod 400 = 0"
  then have "400 dvd y" by (simp add: mod_eq_0_iff_dvd)
  moreover have "(100::int) dvd 400" by simp
  ultimately have "100 dvd y" by (rule dvd_trans [rotated])
  then show ?thesis by (simp add: mod_eq_0_iff_dvd)
qed

lemma mod_100_4: "(y::int) mod 100 = 0 \<Longrightarrow> y mod 4 = 0"
proof -
  assume "y mod 100 = 0"
  then have "100 dvd y" by (simp add: mod_eq_0_iff_dvd)
  moreover have "(4::int) dvd 100" by simp
  ultimately have "4 dvd y" by (rule dvd_trans [rotated])
  then show ?thesis by (simp add: mod_eq_0_iff_dvd)
qed

lemma days_before_year_Suc:
  "days_before_year (y + 1) = days_before_year y + (if is_leap y then 366 else 365)"
proof -
  define a b c where "a = (y - 1) div 4" and "b = (y - 1) div 100" and "c = (y - 1) div 400"
  define p4 p100 p400 where "p4 \<longleftrightarrow> y mod 4 = 0" and "p100 \<longleftrightarrow> y mod 100 = 0"
    and "p400 \<longleftrightarrow> y mod 400 = 0"
  have s: "y div 4 = a + (if p4 then 1 else 0)" "y div 100 = b + (if p100 then 1 else 0)"
    "y div 400 = c + (if p400 then 1 else 0)"
    using div_step [of 4 y] div_step [of 100 y] div_step [of 400 y]
    by (simp_all only: a_def b_def c_def p4_def p100_def p400_def zero_less_numeral)
  have leap: "is_leap y \<longleftrightarrow> p4 \<and> (\<not> p100 \<or> p400)"
    by (simp only: is_leap_def p4_def p100_def p400_def)
  have imp: "p400 \<Longrightarrow> p100" "p100 \<Longrightarrow> p4"
    using mod_400_100 [of y] mod_100_4 [of y] by (simp_all only: p4_def p100_def p400_def)
  have n: "days_before_year (y + 1) =
      y * 365 + (a + (if p4 then 1 else 0)) - (b + (if p100 then 1 else 0))
        + (c + (if p400 then 1 else 0))"
    by (simp only: days_before_year_def Let_def add_diff_cancel_right' s)
  have o: "days_before_year y = (y - 1) * 365 + a - b + c"
    by (simp only: days_before_year_def Let_def a_def b_def c_def)
  show ?thesis
    unfolding n o leap using imp by (cases p4; cases p100; cases p400) (simp_all add: algebra_simps)
qed

lemma days_before_year_mono: "y \<le> y' \<Longrightarrow> days_before_year y \<le> days_before_year y'"
proof (induction y' rule: int_ge_induct)
  case base
  show ?case by simp
next
  case (step i)
  then show ?case by (simp add: days_before_year_Suc)
qed

lemma days_before_next_year:
  assumes "y < y'"
  shows "days_before_year y + (if is_leap y then 366 else 365) \<le> days_before_year y'"
proof -
  from assms have "y + 1 \<le> y'" by simp
  then have "days_before_year (y + 1) \<le> days_before_year y'"
    by (rule days_before_year_mono)
  then show ?thesis by (simp add: days_before_year_Suc)
qed

lemmas month_defs = days_before_month_def days_in_month_def days_before_month_table_def
  days_in_month_table_def

lemma days_in_month_simps:
  "days_in_month y 1 = 31" "days_in_month y 2 = (if is_leap y then 29 else 28)"
  "days_in_month y 3 = 31" "days_in_month y 4 = 30" "days_in_month y 5 = 31"
  "days_in_month y 6 = 30" "days_in_month y 7 = 31" "days_in_month y 8 = 31"
  "days_in_month y 9 = 30" "days_in_month y 10 = 31" "days_in_month y 11 = 30"
  "days_in_month y 12 = 31"
  by (simp_all add: month_defs)

lemma days_before_month_simps:
  "days_before_month y 1 = 0" "days_before_month y 2 = 31"
  "days_before_month y 3 = 59 + (if is_leap y then 1 else 0)"
  "days_before_month y 4 = 90 + (if is_leap y then 1 else 0)"
  "days_before_month y 5 = 120 + (if is_leap y then 1 else 0)"
  "days_before_month y 6 = 151 + (if is_leap y then 1 else 0)"
  "days_before_month y 7 = 181 + (if is_leap y then 1 else 0)"
  "days_before_month y 8 = 212 + (if is_leap y then 1 else 0)"
  "days_before_month y 9 = 243 + (if is_leap y then 1 else 0)"
  "days_before_month y 10 = 273 + (if is_leap y then 1 else 0)"
  "days_before_month y 11 = 304 + (if is_leap y then 1 else 0)"
  "days_before_month y 12 = 334 + (if is_leap y then 1 else 0)"
  by (simp_all add: month_defs)

lemma month_cases:
  "1 \<le> m \<Longrightarrow> m \<le> 12 \<Longrightarrow>
     m = 1 \<or> m = 2 \<or> m = 3 \<or> m = 4 \<or> m = 5 \<or> m = 6 \<or> m = 7 \<or> m = 8 \<or> m = 9 \<or> m = 10
     \<or> m = 11 \<or> m = (12::int)"
  by arith

lemma day_of_year_bound:
  assumes "1 \<le> m" "m \<le> 12" "d \<le> days_in_month y m"
  shows "days_before_month y m + d \<le> (if is_leap y then 366 else 365)"
  using month_cases [OF assms(1,2)] assms(3)
  by (elim disjE) (simp_all add: days_in_month_simps days_before_month_simps split: if_splits)

lemma days_before_month_nonneg:
  assumes "1 \<le> m" "m \<le> 12"
  shows "0 \<le> days_before_month y m"
  using month_cases [OF assms(1,2)]
  by (elim disjE) (simp_all add: days_before_month_simps)

lemma days_before_succ_month:
  assumes "1 \<le> m" "m < 12"
  shows "days_before_month y (m + 1) = days_before_month y m + days_in_month y m"
proof -
  from assms have "1 \<le> m" "m \<le> 12" by simp_all
  from month_cases [OF this] assms(2) show ?thesis
    by (elim disjE) (simp_all add: days_in_month_simps days_before_month_simps)
qed

lemma days_in_month_pos:
  assumes "1 \<le> m" "m \<le> 12"
  shows "0 < days_in_month y m"
  using month_cases [OF assms(1,2)]
  by (elim disjE) (simp_all add: days_in_month_simps)

lemma days_before_next_month:
  assumes "1 \<le> m" "m < m'" "m' \<le> 12"
  shows "days_before_month y m + days_in_month y m \<le> days_before_month y m'"
proof -
  from assms(2) have "m + 1 \<le> m'" by simp
  then show ?thesis
    using assms(1,3)
  proof (induction m' rule: int_ge_induct)
    case base
    then show ?case by (simp add: days_before_succ_month)
  next
    case (step i)
    then have "days_before_month y m + days_in_month y m \<le> days_before_month y i" by simp
    also have "\<dots> \<le> days_before_month y (i + 1)"
      using step days_in_month_pos [of i y] by (simp add: days_before_succ_month)
    finally show ?case .
  qed
qed

lemma toordinal_strict_mono:
  assumes "valid_date a" "valid_date b" "a < b"
  shows "toordinal a < toordinal b"
proof -
  obtain y m d where a: "a = (y, m, d)" by (cases a) auto
  obtain y' m' d' where b: "b = (y', m', d')" by (cases b) auto
  from assms(1) a have va: "1 \<le> m" "m \<le> 12" "1 \<le> d" "d \<le> days_in_month y m"
    by (simp_all add: valid_date_def)
  from assms(2) b have vb: "1 \<le> m'" "m' \<le> 12" "1 \<le> d'" "d' \<le> days_in_month y' m'"
    by (simp_all add: valid_date_def)
  from assms(3) a b consider "y < y'" | "y = y'" "m < m'" | "y = y'" "m = m'" "d < d'"
    by (auto simp: less_prod_def')
  then show ?thesis
  proof cases
    case 1
    have "toordinal a \<le> days_before_year y + (if is_leap y then 366 else 365)"
      using day_of_year_bound [OF va(1,2,4)] by (simp add: toordinal_def a)
    also have "\<dots> \<le> days_before_year y'"
      using 1 by (rule days_before_next_year)
    also have "\<dots> < toordinal b"
      using days_before_month_nonneg [OF vb(1,2), of y'] vb(3) by (simp add: toordinal_def b)
    finally show ?thesis .
  next
    case 2
    have "days_before_month y m + d \<le> days_before_month y m + days_in_month y m"
      using va(4) by simp
    also have "\<dots> \<le> days_before_month y m'"
      using va(1) 2(2) vb(2) by (rule days_before_next_month)
    finally show ?thesis
      using 2(1) vb(3) by (simp add: toordinal_def a b)
  next
    case 3
    then show ?thesis by (simp add: toordinal_def a b)
  qed
qed

lemma decimal_ascii: "ascii_digit c \<Longrightarrow> decimal_value c = Some (c - 48)"
  by (simp add: decimal_value_def digit_zeros_def ascii_digit_def)

lemma is_decimal_ascii: "ascii_digit c \<Longrightarrow> is_decimal c"
  by (simp add: is_decimal_def decimal_ascii)

lemma not_space_ascii: "ascii_digit c \<Longrightarrow> \<not> is_space c"
  by (auto simp: ascii_digit_def is_space_def)

lemma int_of_group_2:
  "ascii_digit a \<Longrightarrow> ascii_digit b \<Longrightarrow> int_of_group [a, b] = Some (int (10 * (a - 48) + (b - 48)))"
  by (simp add: int_of_group_def py_strip_def not_space_ascii is_decimal_ascii decimal_ascii)

lemma int_of_group_4:
  "ascii_digit a \<Longrightarrow> ascii_digit b \<Longrightarrow> ascii_digit c \<Longrightarrow> ascii_digit d \<Longrightarrow>
   int_of_group [a, b, c, d]
     = Some (int (1000 * (a - 48) + 100 * (b - 48) + 10 * (c - 48) + (d - 48)))"
  by (simp add: int_of_group_def py_strip_def not_space_ascii is_decimal_ascii decimal_ascii)

lemma re_Y_ascii:
  "ascii_digit a \<Longrightarrow> ascii_digit b \<Longrightarrow> ascii_digit c \<Longrightarrow> ascii_digit d \<Longrightarrow>
   re_Y (a # b # c # d # r) = [([a, b, c, d], r)]"
  by (simp add: re_Y_def is_decimal_ascii)

lemma re_m_two_digits:
  assumes "ascii_digit a" "ascii_digit b" "1 \<le> 10 * (a - 48) + (b - 48)" "10 * (a - 48) + (b - 48) \<le> 12"
  shows "re_m (a # b # r) = [([a, b], r)] \<or> re_m (a # b # r) = [([a, b], r), ([a], b # r)]"
proof -
  from assms have "a = 48 \<and> 49 \<le> b \<and> b \<le> 57 \<or> a = 49 \<and> 48 \<le> b \<and> b \<le> 50"
    unfolding ascii_digit_def by arith
  then show ?thesis
    by (auto simp: re_m_def re_two_def re_one_def in_range_def)
qed

lemma re_d_two_digits:
  assumes "ascii_digit a" "ascii_digit b" "1 \<le> 10 * (a - 48) + (b - 48)" "10 * (a - 48) + (b - 48) \<le> 31"
  shows "re_d [a, b] = [([a, b], [])] \<or> re_d [a, b] = [([a, b], []), ([a], [b])]"
proof -
  from assms have "a = 48 \<and> 49 \<le> b \<and> b \<le> 57 \<or> (a = 49 \<or> a = 50) \<and> 48 \<le> b \<and> b \<le> 57
      \<or> a = 51 \<and> 48 \<le> b \<and> b \<le> 49"
    unfolding ascii_digit_def by arith
  moreover have "is_decimal b" using assms(2) by (rule is_decimal_ascii)
  ultimately show ?thesis
    by (auto simp: re_d_def re_two_def re_one_def in_range_def)
qed

lemma re_match_strict:
  assumes y: "ascii_digit y1" "ascii_digit y2" "ascii_digit y3" "ascii_digit y4"
    and m: "ascii_digit m1" "ascii_digit m2" "1 \<le> 10 * (m1 - 48) + (m2 - 48)"
      "10 * (m1 - 48) + (m2 - 48) \<le> 12"
    and d: "ascii_digit d1" "ascii_digit d2" "1 \<le> 10 * (d1 - 48) + (d2 - 48)"
      "10 * (d1 - 48) + (d2 - 48) \<le> 31"
  shows "\<exists>ps. re_match_ymd [y1, y2, y3, y4, 45, m1, m2, 45, d1, d2]
           = ([y1, y2, y3, y4], [m1, m2], [d1, d2], []) # ps"
proof -
  have m2: "m2 \<noteq> 45" using m(2) by (simp add: ascii_digit_def)
  from re_m_two_digits [OF m, of "[45, d1, d2]"] re_d_two_digits [OF d] show ?thesis
    by (auto simp: re_match_ymd_def re_Y_ascii [OF y] re_lit_def m2)
qed

lemma days_in_month_le_31:
  assumes "1 \<le> m" "m \<le> 12"
  shows "days_in_month y m \<le> 31"
  using month_cases [OF assms]
  by (elim disjE) (simp_all add: days_in_month_simps)

lemma strict_ymd_parses:
  assumes "strict_ymd s = Some dt"
  shows "strptime_ymd s = Inr dt"
proof -
  from assms obtain y1 y2 y3 y4 m1 m2 d1 d2 where
    s: "s = [y1, y2, y3, y4, 45, m1, m2, 45, d1, d2]"
    and dg: "ascii_digit y1" "ascii_digit y2" "ascii_digit y3" "ascii_digit y4"
      "ascii_digit m1" "ascii_digit m2" "ascii_digit d1" "ascii_digit d2"
    and mk: "make_date
                 (int (1000 * (y1 - 48) + 100 * (y2 - 48) + 10 * (y3 - 48) + (y4 - 48)))
                 (int (10 * (m1 - 48) + (m2 - 48)))
                 (int (10 * (d1 - 48) + (d2 - 48))) = Some dt"
    by (auto simp: strict_ymd_def split: list.splits if_splits)
  let ?M = "int (10 * (m1 - 48) + (m2 - 48))" and ?D = "int (10 * (d1 - 48) + (d2 - 48))"
  from mk have v: "1 \<le> ?M" "?M \<le> 12" "1 \<le> ?D" "?D \<le> days_in_month
      (int (1000 * (y1 - 48) + 100 * (y2 - 48) + 10 * (y3 - 48) + (y4 - 48))) ?M"
    by (simp_all add: make_date_Some)
  from v(4) days_in_month_le_31 [OF v(1,2)] have d31: "?D \<le> 31"
    by (rule order_trans)
  have mr: "1 \<le> 10 * (m1 - 48) + (m2 - 48)" "10 * (m1 - 48) + (m2 - 48) \<le> 12"
    using v(1,2) by linarith+
  have dr: "1 \<le> 10 * (d1 - 48) + (d2 - 48)" "10 * (d1 - 48) + (d2 - 48) \<le> 31"
    using v(3) d31 by linarith+
  from re_match_strict [OF dg(1-6) mr dg(7,8) dr] obtain ps where
    "re_match_ymd s = ([y1, y2, y3, y4], [m1, m2], [d1, d2], []) # ps"
    unfolding s by blast
  then show ?thesis
    using mk by (simp add: strptime_ymd_def date_of_groups_def int_of_group_4 [OF dg(1-4)]
        int_of_group_2 [OF dg(5,6)] int_of_group_2 [OF dg(7,8)])
qed

lemmas strptime_defs = strptime_ymd_def date_of_groups_def re_match_ymd_def re_Y_def re_m_def re_d_def re_lit_def
  re_one_def re_two_def in_range_def is_decimal_def decimal_value_def digit_zeros_def
  int_of_group_def py_strip_def is_space_def make_date_def days_in_month_def
  days_in_month_table_def is_leap_def

lemmas toordinal_defs = toordinal_def days_before_year_def days_before_month_def
  days_before_month_table_def is_leap_def

lemma strptime_ymd_valid_date: "strptime_ymd s = Inr dt \<Longrightarrow> valid_date dt"
  using strptime_ymd_valid [of s] by (cases dt) (auto simp: valid_date_def)

lemma toordinal_mono:
  assumes "valid_date a" "valid_date b" "a \<le> b"
  shows "toordinal a \<le> toordinal b"
proof (cases "a = b")
  case True
  then show ?thesis by simp
next
  case False
  with assms(3) have "a < b" by simp
  with assms(1,2) have "toordinal a < toordinal b" by (rule toordinal_strict_mono)
  then show ?thesis by simp
qed

lemma days_between_cases:
  "days_between s e =
     (case (strptime_ymd s, strptime_ymd e) of
        (Inr a, Inr b) \<Rightarrow> if a \<le> b then toordinal b - toordinal a + 1 else 0
      | _ \<Rightarrow> 0)"
  by (simp add: days_between_def split: sum.splits)

lemma days_between_zero_iff:
  "days_between s e = 0 \<longleftrightarrow>
     isl (strptime_ymd s) \<or> isl (strptime_ymd e) \<or> parse_date_ymd e < parse_date_ymd s"
proof (cases "strptime_ymd s")
  case (Inl x)
  then show ?thesis by (simp add: days_between_def)
next
  case s: (Inr a)
  show ?thesis
  proof (cases "strptime_ymd e")
    case (Inl x)
    with s show ?thesis by (simp add: days_between_def)
  next
    case e: (Inr b)
    show ?thesis
    proof (cases "a \<le> b")
      case True
      from s e have "valid_date a" "valid_date b"
        by (simp_all add: strptime_ymd_valid_date)
      then have "toordinal a \<le> toordinal b" using True by (rule toordinal_mono)
      with s e True show ?thesis
        by (simp add: days_between_def parse_date_ymd_def not_less)
    next
      case False
      then have n: "(a \<le> b) = False" and l: "b < a" by simp_all
      from s e l show ?thesis
        by (simp add: days_between_def parse_date_ymd_def n)
    qed
  qed
qed

lemma days_between_nonneg: "0 \<le> days_between s e"
proof (cases "days_between s e = 0")
  case True
  then show ?thesis by simp
next
  case False
  then obtain a b where p: "strptime_ymd s = Inr a" "strptime_ymd e = Inr b" "a \<le> b"
    by (auto simp: days_between_def split: sum.splits if_splits)
  then have "valid_date a" "valid_date b"
    by (simp_all add: strptime_ymd_valid_date)
  then have "toordinal a \<le> toordinal b" using p(3) by (rule toordinal_mono)
  with p show ?thesis by (simp add: days_between_def)
qed

lemma days_between_examples:
  "days_between (ascii ''2024-01-01'') (ascii ''2024-01-01'') = 1"
  "days_between (ascii ''2024-01-05'') (ascii ''2024-01-01'') = 0"
  "days_between (ascii ''bad'') (ascii ''2024-01-01'') = 0"
proof -
  have p: "strptime_ymd (ascii ''2024-01-01'') = Inr (2024, 1, 1)"
    "strptime_ymd (ascii ''2024-01-05'') = Inr (2024, 1, 5)"
    "strptime_ymd (ascii ''bad'') = Inl ValueError"
    by (simp_all add: ascii_def strptime_defs)
  show "days_between (ascii ''2024-01-01'') (ascii ''2024-01-01'') = 1"
    "days_between (ascii ''2024-01-05'') (ascii ''2024-01-01'') = 0"
    "days_between (ascii ''bad'') (ascii ''2024-01-01'') = 0"
    by (simp_all add: days_between_def p)
qed

text \<open>
  Claim C2, as stated, fails: \<^verbatim>\<open>2024-1-5\<close> is not strict \<^verbatim>\<open>YYYY-MM-DD\<close>, yet
  \<^verbatim>\<open>strptime\<close> reads it, and the span from it to itself is 1, not 0.
\<close>

theorem days_between_lenient_counterexample:
  "strict_ymd (ascii ''2024-1-5'') = None
   \<and> days_between (ascii ''2024-1-5'') (ascii ''2024-1-5'') = 1"
proof -
  have "strptime_ymd (ascii ''2024-1-5'') = Inr (2024, 1, 5)"
    by (simp add: ascii_def strptime_defs)
  then show ?thesis
    by (simp add: days_between_def) (simp add: ascii_def strict_ymd_def)
qed

text \<open>
  Claim C2, amended. \<^verbatim>\<open>days_between\<close> is total. It returns 0 exactly when a bound does not
  parse or the end date is before the start date, and otherwise the difference in days
  plus 1, which is at least 1. A bound parses as \<^verbatim>\<open>strptime\<close> reads \<^verbatim>\<open>%Y-%m-%d\<close>: every
  strict \<^verbatim>\<open>YYYY-MM-DD\<close> date parses to itself, and so do some other texts, such as a
  month or day of one digit. The three examples of the claim hold.
\<close>

theorem days_between_spec:
  "days_between s e =
     (case (strptime_ymd s, strptime_ymd e) of
        (Inr a, Inr b) \<Rightarrow> if a \<le> b then toordinal b - toordinal a + 1 else 0
      | _ \<Rightarrow> 0)
   \<and> (days_between s e = 0 \<longleftrightarrow>
        isl (strptime_ymd s) \<or> isl (strptime_ymd e) \<or> parse_date_ymd e < parse_date_ymd s)
   \<and> 0 \<le> days_between s e
   \<and> (strict_ymd s = Some a \<longrightarrow> strptime_ymd s = Inr a)
   \<and> (strict_ymd s = Some a \<and> strict_ymd e = Some b \<longrightarrow>
        days_between s e = (if a \<le> b then toordinal b - toordinal a + 1 else 0))
   \<and> days_between (ascii ''2024-01-01'') (ascii ''2024-01-01'') = 1
   \<and> days_between (ascii ''2024-01-05'') (ascii ''2024-01-01'') = 0
   \<and> days_between (ascii ''bad'') (ascii ''2024-01-01'') = 0"
proof (intro conjI impI)
  show "days_between s e =
     (case (strptime_ymd s, strptime_ymd e) of
        (Inr a, Inr b) \<Rightarrow> if a \<le> b then toordinal b - toordinal a + 1 else 0
      | _ \<Rightarrow> 0)"
    by (rule days_between_cases)
  show "days_between s e = 0 \<longleftrightarrow>
        isl (strptime_ymd s) \<or> isl (strptime_ymd e) \<or> parse_date_ymd e < parse_date_ymd s"
    by (rule days_between_zero_iff)
  show "0 \<le> days_between s e"
    by (rule days_between_nonneg)
  show "strptime_ymd s = Inr a" if "strict_ymd s = Some a"
    using that by (rule strict_ymd_parses)
  show "days_between s e = (if a \<le> b then toordinal b - toordinal a + 1 else 0)"
    if "strict_ymd s = Some a \<and> strict_ymd e = Some b"
    using that by (simp add: days_between_def strict_ymd_parses)
qed (rule days_between_examples)+

theorem days_between_spec_witness:
  "strict_ymd (ascii ''2024-01-01'') = Some (2024, 1, 1)
   \<and> strict_ymd (ascii ''2024-03-01'') = Some (2024, 3, 1)
   \<and> strptime_ymd (ascii ''2024-01-01'') = Inr (2024, 1, 1)
   \<and> days_between (ascii ''2024-01-01'') (ascii ''2024-03-01'') = 61"
proof -
  have s: "strict_ymd (ascii ''2024-01-01'') = Some (2024, 1, 1)"
    "strict_ymd (ascii ''2024-03-01'') = Some (2024, 3, 1)"
    by (simp_all add: ascii_def strict_ymd_def ascii_digit_def make_date_def days_in_month_def
        days_in_month_table_def is_leap_def)
  have t: "toordinal (2024, 3, 1) - toordinal (2024, 1, 1) + 1 = 61"
    by (simp add: toordinal_defs)
  from days_between_spec [of "ascii ''2024-01-01''" "ascii ''2024-03-01''" "(2024, 1, 1)" "(2024, 3, 1)"]
  have "strptime_ymd (ascii ''2024-01-01'') = Inr (2024, 1, 1)"
    and "days_between (ascii ''2024-01-01'') (ascii ''2024-03-01'')
      = (if (2024, 1, 1) \<le> ((2024, 3, 1) :: date) then toordinal (2024, 3, 1) - toordinal (2024, 1, 1) + 1 else 0)"
    using s by blast+
  with s t show ?thesis by simp
qed

section \<open>Properties of the travel normalizer\<close>

lemma sort_reverse_length: "length (sort_reverse k xs) = length xs"
  by (simp add: sort_reverse_def)

lemma sort_reverse_mset: "mset (sort_reverse k xs) = mset xs"
  by (simp add: sort_reverse_def)

lemma sort_reverse_sorted: "sorted_wrt (\<lambda>a b. k b \<le> k a) (sort_reverse k xs)"
proof -
  have "sorted (map k (sort_key k (rev xs)))"
    by (rule sorted_sort_key)
  then have "sorted_wrt (\<lambda>a b. k a \<le> k b) (sort_key k (rev xs))"
    by (simp add: sorted_map)
  then show ?thesis
    by (simp add: sort_reverse_def sorted_wrt_rev)
qed

lemma sort_reverse_stable: "filter (\<lambda>y. k y = v) (sort_reverse k xs) = filter (\<lambda>y. k y = v) xs"
  by (simp add: sort_reverse_def sort_key_stable flip: rev_filter)

lemma datetime_min_least: "datetime_min \<le> parse_date_ymd s"
proof (cases "strptime_ymd s")
  case (Inl e)
  then show ?thesis by (simp add: parse_date_ymd_def)
next
  case (Inr dt)
  obtain y m d where dt: "dt = (y, m, d)" by (cases dt) auto
  with Inr strptime_ymd_valid [of s y m d] show ?thesis
    by (auto simp: parse_date_ymd_def datetime_min_def)
qed

text \<open>
  Claim C3. For raw records on which the loop body raises nothing (\<open>raw_stop_ok\<close>), the
  travel normalizer returns a list with the records of the loop, none dropped and none
  added, of the length of the input, in descending order of the parsed start date. A
  start date that does not parse counts as \<^verbatim>\<open>datetime.min\<close>, which no date precedes, so
  every record behind such a record has that key as well.
\<close>

theorem travel_stops_sorted:
  assumes "\<forall>st\<in>set stops. raw_stop_ok st"
  shows "\<exists>normalized out.
      map_exn (normalize_stop lib) stops = Inr normalized
      \<and> normalize_travel_stops lib stops = Inr out
      \<and> length out = length stops
      \<and> mset out = mset normalized
      \<and> sorted_wrt (\<lambda>a b. parse_date_ymd (start_date b) \<le> parse_date_ymd (start_date a)) out
      \<and> (\<forall>x\<in>set out. datetime_min \<le> parse_date_ymd (start_date x))
      \<and> (\<forall>x\<in>set out. isl (strptime_ymd (start_date x)) \<longrightarrow>
            parse_date_ymd (start_date x) = datetime_min)
      \<and> (\<forall>i j. i < j \<and> j < length out \<and> isl (strptime_ymd (start_date (out ! i))) \<longrightarrow>
            parse_date_ymd (start_date (out ! j)) = datetime_min)"
proof -
  let ?k = "\<lambda>x. parse_date_ymd (start_date x)"
  from assms have "\<forall>st\<in>set stops. \<exists>r. normalize_stop lib st = Inr r"
    by (simp add: normalize_stop_returns_iff)
  then obtain normalized where n: "map_exn (normalize_stop lib) stops = Inr normalized"
    using map_exn_total by blast
  define out where "out = sort_reverse ?k normalized"
  have o: "normalize_travel_stops lib stops = Inr out"
    by (simp add: normalize_travel_stops_def n out_def)
  have len: "length out = length stops"
    using n by (simp add: out_def sort_reverse_length map_exn_length)
  have ms: "mset out = mset normalized"
    by (simp add: out_def sort_reverse_mset)
  have srt: "sorted_wrt (\<lambda>a b. ?k b \<le> ?k a) out"
    unfolding out_def by (rule sort_reverse_sorted)
  have least: "\<forall>x\<in>set out. datetime_min \<le> ?k x"
    by (simp add: datetime_min_least)
  have failed: "?k x = datetime_min" if "isl (strptime_ymd (start_date x))" for x :: stop
    using that by (auto simp: parse_date_ymd_def isl_def)
  have lst: "?k (out ! j) = datetime_min"
    if "i < j \<and> j < length out \<and> isl (strptime_ymd (start_date (out ! i)))" for i j
  proof -
    from srt that have "?k (out ! j) \<le> ?k (out ! i)"
      by (simp add: sorted_wrt_iff_nth_less)
    with failed [of "out ! i"] that have "?k (out ! j) \<le> datetime_min" by simp
    with datetime_min_least [of "start_date (out ! j)"] show ?thesis by simp
  qed
  from n o len ms srt least failed lst show ?thesis by blast
qed

theorem travel_stops_sorted_witness:
  "raw_stop_ok (JDict [(ascii ''place'', JStr (ascii ''lima'')), (ascii ''start_date'', JStr (ascii ''2023-05-01''))])
   \<and> raw_stop_ok (JDict [(ascii ''place'', JStr (ascii ''oslo'')), (ascii ''start_date'', JStr (ascii ''soon''))])
   \<and> raw_stop_ok (JDict [(ascii ''place'', JStr (ascii ''rome'')), (ascii ''start_date'', JStr (ascii ''2024-01-15''))])
   \<and> map_sum id (map start_date)
        (normalize_travel_stops sample_lib
          [JDict [(ascii ''place'', JStr (ascii ''lima'')), (ascii ''start_date'', JStr (ascii ''2023-05-01''))],
           JDict [(ascii ''place'', JStr (ascii ''oslo'')), (ascii ''start_date'', JStr (ascii ''soon''))],
           JDict [(ascii ''place'', JStr (ascii ''rome'')), (ascii ''start_date'', JStr (ascii ''2024-01-15''))]])
       = Inr [ascii ''2024-01-15'', ascii ''2023-05-01'', ascii ''soon'']"
proof -
  let ?a = "JDict [(ascii ''place'', JStr (ascii ''lima'')), (ascii ''start_date'', JStr (ascii ''2023-05-01''))]"
  let ?b = "JDict [(ascii ''place'', JStr (ascii ''oslo'')), (ascii ''start_date'', JStr (ascii ''soon''))]"
  let ?c = "JDict [(ascii ''place'', JStr (ascii ''rome'')), (ascii ''start_date'', JStr (ascii ''2024-01-15''))]"
  have ok: "raw_stop_ok ?a" "raw_stop_ok ?b" "raw_stop_ok ?c"
    by (simp_all add: raw_stop_ok_def dict_get_def str_or_false_def ascii_def)
  have p: "parse_date_ymd (ascii ''2023-05-01'') = (2023, 5, 1)"
    "parse_date_ymd (ascii ''soon'') = (1, 1, 1)"
    "parse_date_ymd (ascii ''2024-01-15'') = (2024, 1, 15)"
    by (simp_all add: parse_date_ymd_def datetime_min_def ascii_def strptime_defs)
  have sd: "map_exn (\<lambda>st. map_sum id start_date (normalize_stop sample_lib st)) [?a, ?b, ?c]
      = Inr [ascii ''2023-05-01'', ascii ''soon'', ascii ''2024-01-15'']"
    by (simp add: normalize_stop_def strip_method_py_or str_or_false_def dict_get_def py_str_def
        Let_def ascii_def)
  from travel_stops_sorted [of "[?a, ?b, ?c]" sample_lib] ok
  obtain normalized out where
    n: "map_exn (normalize_stop sample_lib) [?a, ?b, ?c] = Inr normalized"
    and o: "normalize_travel_stops sample_lib [?a, ?b, ?c] = Inr out"
    by auto
  from n have "map start_date normalized = [ascii ''2023-05-01'', ascii ''soon'', ascii ''2024-01-15'']"
    using sd by (auto split: sum.splits)
  then obtain x y z where xyz: "normalized = [x, y, z]" "start_date x = ascii ''2023-05-01''"
    "start_date y = ascii ''soon''" "start_date z = ascii ''2024-01-15''"
    by auto
  from o n have "out = sort_reverse (\<lambda>x. parse_date_ymd (start_date x)) normalized"
    by (simp add: normalize_travel_stops_def)
  then have "out = [z, x, y]"
    by (simp add: xyz sort_reverse_def p)
  with ok o xyz show ?thesis by simp
qed

section \<open>Properties of the portfolio normalizer\<close>

lemma field_names_differ:
  "ascii ''type'' \<noteq> ascii ''title''" "ascii ''type'' \<noteq> ascii ''slug''"
  "ascii ''title'' \<noteq> ascii ''slug''" "ascii ''title'' \<noteq> ascii ''type''"
  "ascii ''slug'' \<noteq> ascii ''type''" "ascii ''slug'' \<noteq> ascii ''title''"
  "ascii ''place'' \<noteq> ascii ''id''" "ascii ''country'' \<noteq> ascii ''id''"
  "ascii ''country'' \<noteq> ascii ''place''" "ascii ''type'' \<noteq> ascii ''id''"
  "ascii ''type'' \<noteq> ascii ''place''" "ascii ''type'' \<noteq> ascii ''country''"
  by (simp_all add: ascii_def)

lemma py_strip_visited: "py_strip (ascii ''visited'') = ascii ''visited''" "py_strip [] = []"
  by (simp_all add: py_strip_def ascii_def is_space_def)

lemma portfolio_returns_strings:
  assumes r: "normalize_portfolio_items sort_by items = Inr out" and it: "it \<in> set items"
  shows "\<exists>kv. it = JDict kv \<and>
         (\<forall>k\<in>{ascii ''type'', ascii ''title'', ascii ''slug''}.
            \<forall>v. map_of kv k = Some v \<longrightarrow> (\<exists>s. v = JStr s))"
proof -
  from r obtain normalized where "map_exn normalize_item items = Inr normalized"
    by (cases "map_exn normalize_item items") (simp_all add: normalize_portfolio_items_def)
  with it obtain y where "normalize_item it = Inr y"
    using map_exn_Inr_all [of normalize_item items normalized it] by auto
  then show ?thesis
    by (rule normalize_item_strings)
qed

lemma portfolio_null_raises:
  "normalize_portfolio_items sort_by [JDict [(ascii ''type'', JNull)]] = Inl AttributeError"
  "normalize_portfolio_items sort_by [JDict [(ascii ''title'', JNull)]] = Inl AttributeError"
  "normalize_portfolio_items sort_by [JDict [(ascii ''slug'', JNull)]] = Inl AttributeError"
  by (simp_all add: normalize_portfolio_items_def normalize_item_def dict_get_def strip_method_def
      py_strip_def field_names_differ)

lemma travel_null_defaults:
  "map_sum id (map (\<lambda>r. (place r, country r, stop_type r)))
        (normalize_travel_stops lib
          [JDict [(ascii ''id'', JNull), (ascii ''place'', JNull), (ascii ''country'', JNull),
                  (ascii ''type'', JNull)]])
       = Inr [([], [], ascii ''visited'')]"
  by (simp add: normalize_travel_stops_def normalize_stop_def strip_method_py_or
      str_or_false_def dict_get_def sort_reverse_def Let_def py_strip_visited field_names_differ)

lemma travel_null_fields:
  assumes "\<forall>k\<in>{ascii ''id'', ascii ''place'', ascii ''country'', ascii ''type''}. map_of kv k = Some JNull"
  shows "\<exists>r. normalize_stop lib (JDict kv) = Inr r \<and> place r = [] \<and> country r = []
           \<and> stop_type r = ascii ''visited''"
proof -
  from assms have "dict_get kv (ascii ''id'') JNull = JNull" "dict_get kv (ascii ''place'') JNull = JNull"
    "dict_get kv (ascii ''country'') JNull = JNull" "dict_get kv (ascii ''type'') JNull = JNull"
    by (simp_all add: dict_get_def)
  then show ?thesis
    by (simp add: normalize_stop_def strip_method_py_or str_or_false_def Let_def py_strip_visited)
qed

text \<open>
  Claim C10. When the portfolio normalizer returns, every raw record is a dict whose
  \<^verbatim>\<open>type\<close>, \<^verbatim>\<open>title\<close> and \<^verbatim>\<open>slug\<close>, where present, are strings. A record that carries
  \<^verbatim>\<open>null\<close> for one of the three makes it raise \<^verbatim>\<open>AttributeError\<close>, whatever the final sort
  would do; the travel normalizer, given \<^verbatim>\<open>null\<close> for its string fields, returns the
  defaults (empty place and country, type \<^verbatim>\<open>visited\<close>).
\<close>

theorem portfolio_requires_strings:
  "(normalize_portfolio_items sort_by items = Inr out \<longrightarrow>
      (\<forall>it\<in>set items. \<exists>kv. it = JDict kv \<and>
         (\<forall>k\<in>{ascii ''type'', ascii ''title'', ascii ''slug''}.
            \<forall>v. map_of kv k = Some v \<longrightarrow> (\<exists>s. v = JStr s))))
   \<and> normalize_portfolio_items sort_by [JDict [(ascii ''type'', JNull)]] = Inl AttributeError
   \<and> normalize_portfolio_items sort_by [JDict [(ascii ''title'', JNull)]] = Inl AttributeError
   \<and> normalize_portfolio_items sort_by [JDict [(ascii ''slug'', JNull)]] = Inl AttributeError
   \<and> map_sum id (map (\<lambda>r. (place r, country r, stop_type r)))
        (normalize_travel_stops lib
          [JDict [(ascii ''id'', JNull), (ascii ''place'', JNull), (ascii ''country'', JNull),
                  (ascii ''type'', JNull)]])
       = Inr [([], [], ascii ''visited'')]
   \<and> ((\<forall>k\<in>{ascii ''id'', ascii ''place'', ascii ''country'', ascii ''type''}.
          map_of kv k = Some JNull) \<longrightarrow>
        (\<exists>r. normalize_stop lib (JDict kv) = Inr r \<and> place r = [] \<and> country r = []
           \<and> stop_type r = ascii ''visited''))"
proof (intro conjI impI ballI)
  fix it
  assume "normalize_portfolio_items sort_by items = Inr out" and "it \<in> set items"
  then show "\<exists>kv. it = JDict kv \<and>
         (\<forall>k\<in>{ascii ''type'', ascii ''title'', ascii ''slug''}.
            \<forall>v. map_of kv k = Some v \<longrightarrow> (\<exists>s. v = JStr s))"
    by (rule portfolio_returns_strings)
next
  assume "\<forall>k\<in>{ascii ''id'', ascii ''place'', ascii ''country'', ascii ''type''}.
      map_of kv k = Some JNull"
  then show "\<exists>r. normalize_stop lib (JDict kv) = Inr r \<and> place r = [] \<and> country r = []
           \<and> stop_type r = ascii ''visited''"
    by (rule travel_null_fields)
qed (rule portfolio_null_raises travel_null_defaults)+

theorem portfolio_requires_strings_witness:
  "map_sum id (map item_type)
     (normalize_portfolio_items keep_order [JDict [(ascii ''type'', JStr (ascii '' photo ''))]])
     = Inr [ascii ''photo'']
   \<and> map_of [(ascii ''type'', JStr (ascii '' photo ''))] (ascii ''type'') = Some (JStr (ascii '' photo ''))"
proof -
  have e: "plain_excerpt (JStr []) 120 = Inr []"
    by (simp add: plain_excerpt_def)
  have s: "py_strip (ascii '' photo '') = ascii ''photo''" "py_strip [] = []"
    by (simp_all add: py_strip_def ascii_def is_space_def)
  have r: "normalize_portfolio_items keep_order [JDict [(ascii ''type'', JStr (ascii '' photo ''))]]
      = Inr [\<lparr>item_type = ascii ''photo'', title = [], slug = [], year = JNull, tags = JList [],
               cover_image = JStr [], description_md = JStr [], excerpt = [], images = JList [],
               video_url = JStr [], credits = JList []\<rparr>]"
    by (simp add: normalize_portfolio_items_def normalize_item_def dict_get_def strip_method_def
        keep_order_def e s field_names_differ) (simp add: ascii_def)
  from portfolio_requires_strings
    [of keep_order "[JDict [(ascii ''type'', JStr (ascii '' photo ''))]]" _ sample_lib] r
  have "\<exists>kv. JDict [(ascii ''type'', JStr (ascii '' photo ''))] = JDict kv \<and>
         (\<forall>k\<in>{ascii ''type'', ascii ''title'', ascii ''slug''}.
            \<forall>v. map_of kv k = Some v \<longrightarrow> (\<exists>s. v = JStr s))"
    by auto
  with r show ?thesis by simp
qed

end
